theory Spec2Isabelle
  imports Main
begin

chapter \<open>The model: the code of the workflow runtime as functions\<close>

section \<open>The dispatcher\<close>

text \<open>
  \<^verbatim>\<open>PanicError\<close> is what a coroutine leaves when it panics; only whether a coroutine has
  one matters here, so it is a string.
\<close>

type_synonym PanicError = string

text \<open>
  The name of a coroutine, a channel or a selector. A name the code makes from a
  counter (\<^verbatim>\<open>fmt.Sprintf("%v", d.sequence+1)\<close> in \<^verbatim>\<open>newCoroutine\<close>, \<^verbatim>\<open>"chan-%v"\<close> in
  \<^verbatim>\<open>NewChannel\<close>, \<^verbatim>\<open>"selector-%v"\<close> in \<^verbatim>\<open>NewSelector\<close>) is \<open>Numbered\<close> with the value of
  the counter; a name that is given is \<open>Named\<close>.
\<close>

datatype label = Numbered int | Named string

text \<open>
  \<^verbatim>\<open>coroutineState\<close>. In the source a coroutine is a goroutine that waits on the channel
  \<^verbatim>\<open>unblock\<close> and answers on \<^verbatim>\<open>aboutToBlock\<close>. Here the field \<open>goroutine\<close> holds what is
  left of its code, of any type \<open>'p\<close>, in place of the two channels and the back
  reference \<^verbatim>\<open>dispatcher\<close>.
\<close>

record 'p coroutineState =
  name :: label
  keptBlocked :: bool
  closed :: bool
  panicError :: "PanicError option"
  goroutine :: 'p

text \<open>\<^verbatim>\<open>dispatcherImpl\<close>, without its mutex. Go's int is \<open>int\<close>: the counters do not wrap.\<close>

record 'p dispatcherImpl =
  sequence :: int
  channelSequence :: int
  selectorSequence :: int
  coroutines :: "'p coroutineState list"
  executing :: bool
  closed :: bool

text \<open>
  What a goroutine does between the moment \<^verbatim>\<open>call\<close> unblocks it and the moment it
  answers on \<^verbatim>\<open>aboutToBlock\<close>: it creates the coroutines \<open>spawned\<close> (with \<^verbatim>\<open>newCoroutine\<close>
  when no name is given, with \<^verbatim>\<open>newNamedCoroutine\<close> otherwise), changes the rest of the
  workflow's memory (of any type \<open>'w\<close>) into \<open>memory\<close>, and then either yields, leaving
  the rest of its code, or ends: its function returned (\<open>Exits None\<close>) or panicked
  (\<open>Exits (Some e)\<close>), and \<^verbatim>\<open>close\<close> runs. \<open>flag\<close> is the value its \<^verbatim>\<open>keptBlocked\<close> has at
  that moment: \<^verbatim>\<open>yield\<close> sets it when the coroutine is resumed, \<^verbatim>\<open>unblocked\<close> clears it.
\<close>

datatype 'p ending = Yields 'p | Exits "PanicError option"

record ('p, 'w) turn =
  spawned :: "(string option \<times> 'p) list"
  flag :: bool
  ending :: "'p ending"
  memory :: 'w

text \<open>\<^verbatim>\<open>newState\<close>, \<^verbatim>\<open>newNamedCoroutine\<close> and \<^verbatim>\<open>newCoroutine\<close>; \<open>g\<close> is the code of the new goroutine.\<close>

definition newState :: "label \<Rightarrow> 'p \<Rightarrow> 'p dispatcherImpl \<Rightarrow> 'p dispatcherImpl" where
  "newState nm g d =
     d\<lparr>sequence := sequence d + 1,
       coroutines := coroutines d @
         [\<lparr>name = nm, keptBlocked = False, closed = False, panicError = None, goroutine = g\<rparr>]\<rparr>"

definition newNamedCoroutine :: "label \<Rightarrow> 'p \<Rightarrow> 'p dispatcherImpl \<Rightarrow> 'p dispatcherImpl" where
  "newNamedCoroutine nm g d = newState nm g d"

definition newCoroutine :: "'p \<Rightarrow> 'p dispatcherImpl \<Rightarrow> 'p dispatcherImpl" where
  "newCoroutine g d = newNamedCoroutine (Numbered (sequence d + 1)) g d"

definition spawn :: "string option \<times> 'p \<Rightarrow> 'p dispatcherImpl \<Rightarrow> 'p dispatcherImpl" where
  "spawn s d =
     (case s of
        (None, g) \<Rightarrow> newCoroutine g d
      | (Some nm, g) \<Rightarrow> newNamedCoroutine (Named nm) g d)"

text \<open>
  \<^verbatim>\<open>c.call()\<close> for the coroutine at position \<open>i\<close>. \<open>resume\<close> runs the goroutine's code
  on the memory; it gives \<open>None\<close> when the goroutine never yields or ends, and then
  \<^verbatim>\<open>call\<close> does not return.
\<close>

definition call ::
  "('p \<Rightarrow> 'w \<Rightarrow> ('p, 'w) turn option) \<Rightarrow> nat \<Rightarrow> 'p dispatcherImpl \<times> 'w \<Rightarrow>
   ('p dispatcherImpl \<times> 'w) option" where
  "call resume i dw =
     (case dw of (d, w) \<Rightarrow>
        (case resume (goroutine (coroutines d ! i)) w of
           None \<Rightarrow> None
         | Some t \<Rightarrow>
             let d1 = fold spawn (spawned t) d;
                 c = (coroutines d1 ! i)\<lparr>keptBlocked := flag t\<rparr>;
                 c' = (case ending t of
                         Yields g \<Rightarrow> c\<lparr>goroutine := g\<rparr>
                       | Exits e \<Rightarrow> c\<lparr>coroutineState.closed := True, panicError := e\<rparr>)
             in Some (d1\<lparr>coroutines := (coroutines d1)[i := c']\<rparr>, memory t)))"

text \<open>
  The inner loop of \<^verbatim>\<open>ExecuteUntilAllBlocked\<close>, \<^verbatim>\<open>for i := 0; i < len(d.coroutines); i++\<close>,
  from position \<open>i\<close> with the current value of \<^verbatim>\<open>allBlocked\<close>. It ends with \<open>Inl e\<close> when
  the function returns the panic \<open>e\<close> of a coroutine, and with \<open>Inr allBlocked\<close> when the
  loop runs to its end. Removing the coroutine at \<open>i\<close> is followed by \<^verbatim>\<open>i--\<close> and the
  loop's \<^verbatim>\<open>i++\<close>: the position stays. The loop need not end (each coroutine may create
  another): the result is then \<open>None\<close>.
\<close>

partial_function (option) eachCoroutine ::
  "('p \<Rightarrow> 'w \<Rightarrow> ('p, 'w) turn option) \<Rightarrow> nat \<Rightarrow> bool \<Rightarrow> 'p dispatcherImpl \<times> 'w \<Rightarrow>
   ((PanicError + bool) \<times> 'p dispatcherImpl \<times> 'w) option" where
  "eachCoroutine resume i allBlocked dw =
     (if i < length (coroutines (fst dw)) then
        (case (if \<not> coroutineState.closed (coroutines (fst dw) ! i) then call resume i dw
               else Some dw) of
           None \<Rightarrow> None
         | Some (d1, w1) \<Rightarrow>
             let c = coroutines d1 ! i in
             if coroutineState.closed c then
               (let d2 = d1\<lparr>coroutines := take i (coroutines d1) @ drop (i + 1) (coroutines d1)\<rparr>
                in case panicError c of
                     Some e \<Rightarrow> Some (Inl e, d2, w1)
                   | None \<Rightarrow> eachCoroutine resume i False (d2, w1))
             else
               eachCoroutine resume (i + 1)
                 (allBlocked \<and> (keptBlocked c \<or> coroutineState.closed c)) (d1, w1))
      else Some (Inr allBlocked, dw))"

text \<open>
  One turn of the outer loop \<^verbatim>\<open>for !allBlocked\<close>: the pass over the coroutines, then
  \<^verbatim>\<open>allBlocked = allBlocked && lastSequence == d.sequence\<close>, the \<^verbatim>\<open>break\<close> on an empty
  list and the test of the loop. \<open>Returns pe\<close>: the function returns \<open>pe\<close> (nil is
  \<open>None\<close>); \<open>NextPass\<close>: the loop goes round again.
\<close>

datatype control = Returns "PanicError option" | NextPass

definition pass ::
  "('p \<Rightarrow> 'w \<Rightarrow> ('p, 'w) turn option) \<Rightarrow> 'p dispatcherImpl \<times> 'w \<Rightarrow>
   (control \<times> 'p dispatcherImpl \<times> 'w) option" where
  "pass resume dw =
     (let lastSequence = sequence (fst dw) in
      case eachCoroutine resume 0 True dw of
        None \<Rightarrow> None
      | Some (Inl e, dw') \<Rightarrow> Some (Returns (Some e), dw')
      | Some (Inr allBlocked, dw') \<Rightarrow>
          let allBlocked' = (allBlocked \<and> lastSequence = sequence (fst dw')) in
          if length (coroutines (fst dw')) = 0 then Some (Returns None, dw')
          else if allBlocked' then Some (Returns None, dw')
          else Some (NextPass, dw'))"

partial_function (option) passes ::
  "('p \<Rightarrow> 'w \<Rightarrow> ('p, 'w) turn option) \<Rightarrow> 'p dispatcherImpl \<times> 'w \<Rightarrow>
   (PanicError option \<times> 'p dispatcherImpl \<times> 'w) option" where
  "passes resume dw =
     (case pass resume dw of
        None \<Rightarrow> None
      | Some (Returns pe, dw') \<Rightarrow> Some (pe, dw')
      | Some (NextPass, dw') \<Rightarrow> passes resume dw')"

declare eachCoroutine.simps [code] passes.simps [code]

text \<open>
  \<^verbatim>\<open>ExecuteUntilAllBlocked\<close>. \<open>Inl\<close> is a panic of the function itself, \<open>Inr (pe, d, w)\<close>
  its return with \<open>pe\<close>; the deferred \<^verbatim>\<open>d.executing = false\<close> runs on return.
\<close>

definition ExecuteUntilAllBlocked ::
  "('p \<Rightarrow> 'w \<Rightarrow> ('p, 'w) turn option) \<Rightarrow> 'p dispatcherImpl \<times> 'w \<Rightarrow>
   (string + PanicError option \<times> 'p dispatcherImpl \<times> 'w) option" where
  "ExecuteUntilAllBlocked resume dw =
     (case dw of (d, w) \<Rightarrow>
        if dispatcherImpl.closed d then Some (Inl ''dispatcher is closed'')
        else if executing d then
          Some (Inl ''call to ExecuteUntilAllBlocked (possibly from a coroutine) while it is already running'')
        else
          (case passes resume (d\<lparr>executing := True\<rparr>, w) of
             None \<Rightarrow> None
           | Some (pe, d', w') \<Rightarrow> Some (Inr (pe, d'\<lparr>executing := False\<rparr>, w'))))"

text \<open>
  What a pass did, read from the dispatcher before (\<open>d\<close>) and after (\<open>d'\<close>): the number
  of coroutines it created is the growth of \<^verbatim>\<open>sequence\<close>, the number that finished and
  were removed is what is missing from the list.
\<close>

definition created :: "'p dispatcherImpl \<Rightarrow> 'p dispatcherImpl \<Rightarrow> nat" where
  "created d d' = nat (sequence d' - sequence d)"

definition finished :: "'p dispatcherImpl \<Rightarrow> 'p dispatcherImpl \<Rightarrow> nat" where
  "finished d d' = length (coroutines d) + created d d' - length (coroutines d')"

text \<open>What holds when the inner loop, started at \<open>i\<close> with \<open>ab\<close> in \<open>dw\<close>, ends with \<open>y\<close>.\<close>

definition passInv ::
  "nat \<Rightarrow> bool \<Rightarrow> 'p dispatcherImpl \<times> 'w \<Rightarrow> (PanicError + bool) \<times> 'p dispatcherImpl \<times> 'w \<Rightarrow> bool" where
  "passInv i ab dw y \<longleftrightarrow>
   sequence (fst dw) \<le> sequence (fst (snd y)) \<and>
   length (coroutines (fst (snd y))) \<le> length (coroutines (fst dw)) + created (fst dw) (fst (snd y)) \<and>
   (\<forall>ab'. fst y = Inr ab' \<longrightarrow>
      take i (coroutines (fst (snd y))) = take i (coroutines (fst dw)) \<and>
      (\<forall>c \<in> set (drop i (coroutines (fst (snd y)))). \<not> coroutineState.closed c) \<and>
      (ab' \<longleftrightarrow> ab \<and> (\<forall>c \<in> set (drop i (coroutines (fst (snd y)))). keptBlocked c) \<and>
         finished (fst dw) (fst (snd y)) = 0))"

text \<open>
  A pass was quiet when every coroutine left in the list reported \<^verbatim>\<open>keptBlocked\<close>, none
  was created and none finished.
\<close>

definition quiet :: "'p dispatcherImpl \<Rightarrow> 'p dispatcherImpl \<Rightarrow> bool" where
  "quiet d d' \<longleftrightarrow>
     (\<forall>c \<in> set (coroutines d'). keptBlocked c) \<and> created d d' = 0 \<and> finished d d' = 0"

text \<open>\<open>nextPass resume s s'\<close>: the pass that starts in \<open>s\<close> is followed by one that starts in \<open>s'\<close>.\<close>

definition nextPass ::
  "('p \<Rightarrow> 'w \<Rightarrow> ('p, 'w) turn option) \<Rightarrow> 'p dispatcherImpl \<times> 'w \<Rightarrow> 'p dispatcherImpl \<times> 'w \<Rightarrow> bool" where
  "nextPass resume s s' \<longleftrightarrow> pass resume s = Some (NextPass, s')"

text \<open>
  Coroutines for examples: a script is the list of its turns, each with the flag it
  reports when it yields and the scripts of the coroutines it creates in that turn, and
  the scripts of the coroutines it creates in its last turn, in which its function
  returns.
\<close>

datatype script = Script "(bool \<times> script list) list" "script list"

fun runScript :: "script \<Rightarrow> 'w \<Rightarrow> (script, 'w) turn option" where
  "runScript (Script [] final) w =
     Some \<lparr>spawned = map (Pair None) final, flag = False, ending = Exits None, memory = w\<rparr>"
| "runScript (Script ((b, sp) # rest) final) w =
     Some \<lparr>spawned = map (Pair None) sp, flag = b, ending = Yields (Script rest final),
           memory = w\<rparr>"

text \<open>A dispatcher whose only coroutine creates a coroutine and returns; the new coroutine returns at once.\<close>

definition spawnAndExit :: "script dispatcherImpl" where
  "spawnAndExit =
     \<lparr>sequence = 1, channelSequence = 0, selectorSequence = 0,
      coroutines = [\<lparr>name = Numbered 1, keptBlocked = True, closed = False, panicError = None,
                     goroutine = Script [] [Script [] []]\<rparr>],
      executing = False, closed = False\<rparr>"

text \<open>
  Two coroutines: the first makes progress in its first turn and is blocked in its
  second, the other is blocked in both.
\<close>

definition twoBlocked :: "script dispatcherImpl" where
  "twoBlocked =
     \<lparr>sequence = 2, channelSequence = 0, selectorSequence = 0,
      coroutines =
        [\<lparr>name = Numbered 1, keptBlocked = False, closed = False, panicError = None,
          goroutine = Script [(False, []), (True, [])] []\<rparr>,
         \<lparr>name = Numbered 2, keptBlocked = False, closed = False, panicError = None,
          goroutine = Script [(True, []), (True, [])] []\<rparr>],
      executing = False, closed = False\<rparr>"

definition twoBlocked1 :: "script dispatcherImpl" where
  "twoBlocked1 =
     twoBlocked\<lparr>coroutines :=
        [\<lparr>name = Numbered 1, keptBlocked = False, closed = False, panicError = None,
          goroutine = Script [(True, [])] []\<rparr>,
         \<lparr>name = Numbered 2, keptBlocked = True, closed = False, panicError = None,
          goroutine = Script [(True, [])] []\<rparr>],
        executing := True\<rparr>"

definition twoBlocked2 :: "script dispatcherImpl" where
  "twoBlocked2 =
     twoBlocked\<lparr>coroutines :=
        [\<lparr>name = Numbered 1, keptBlocked = True, closed = False, panicError = None,
          goroutine = Script [] []\<rparr>,
         \<lparr>name = Numbered 2, keptBlocked = True, closed = False, panicError = None,
          goroutine = Script [] []\<rparr>]\<rparr>"

section \<open>Values, channels, futures and selectors\<close>

subsection \<open>Values and errors\<close>

text \<open>
  A value of type \<^verbatim>\<open>interface{}\<close>: nil, a byte slice (which
  \<^verbatim>\<open>decodeAndAssignValue\<close> decodes), a \<^verbatim>\<open>WorkflowExecution\<close> with its ID and RunID, or any
  other value, known by a name.
\<close>

datatype val = Nil | Bytes "nat list" | Execution string string | Obj string

text \<open>
  A non-nil value of type \<^verbatim>\<open>error\<close>: the sentinel \<^verbatim>\<open>ErrCanceled\<close>, or an error with its
  message. A nil error is \<open>None\<close> of \<open>error option\<close>.
\<close>

datatype error = ErrCanceled | Error string

text \<open>
  The argument \<^verbatim>\<open>valuePtr\<close> of \<^verbatim>\<open>Receive\<close> and \<^verbatim>\<open>Get\<close>, as far as the code looks at it: nil,
  a value that is not a pointer, or a pointer. For a pointer, \<^verbatim>\<open>reflect\<close> decides whether
  the value at hand can be set through it: \<open>Pointer\<close> is a pointer to a variable that
  takes the value, \<open>Unsettable\<close> a pointer for which \<^verbatim>\<open>Elem().Set\<close> panics (a nil pointer, or
  a variable of a type that the value is not assignable to), with what \<^verbatim>\<open>reflect\<close>
  reports. What a call leaves in the variable behind the pointer is \<open>stored\<close>: nothing,
  a value as it is, or what the codec decoded from a byte slice.
\<close>

datatype dest = NilDest | NotPointer | Pointer | Unsettable string

datatype stored = Unchanged | Assigned val | DecodedFrom "nat list"

text \<open>
  \<^verbatim>\<open>decodeAndAssignValue\<close>: \<open>Inr\<close> is its return, with the error it returns and what it
  stored; \<open>Inl\<close> is the panic of \<^verbatim>\<open>reflect\<close> in \<^verbatim>\<open>Elem().Set(fv)\<close>. \<open>decodeArg\<close> is
  \<^verbatim>\<open>getHostEnvironment().decodeArg\<close>, which lives outside these files: it gives the error
  of decoding the bytes into the variable of the call, if any. A nil value is not
  valid for \<^verbatim>\<open>reflect\<close> and nothing is set.
\<close>

definition decodeAndAssignValue ::
  "(nat list \<Rightarrow> error option) \<Rightarrow> val \<Rightarrow> dest \<Rightarrow> string + error option \<times> stored" where
  "decodeAndAssignValue decodeArg from toValuePtr =
     (case toValuePtr of
        NilDest \<Rightarrow> Inr (None, Unchanged)
      | NotPointer \<Rightarrow> Inr (Some (Error ''value parameter provided is not a pointer''), Unchanged)
      | _ \<Rightarrow>
          (case from of
             Bytes data \<Rightarrow>
               (case decodeArg data of
                  Some e \<Rightarrow> Inr (Some e, Unchanged)
                | None \<Rightarrow> Inr (None, DecodedFrom data))
           | Nil \<Rightarrow> Inr (None, Unchanged)
           | v \<Rightarrow>
               (case toValuePtr of
                  Unsettable report \<Rightarrow> Inl report
                | _ \<Rightarrow> Inr (None, Assigned v))))"

text \<open>
  \<^verbatim>\<open>assignValue\<close> panics (\<open>Inl\<close>), with the error that \<^verbatim>\<open>decodeAndAssignValue\<close> returned or with
  what \<^verbatim>\<open>reflect\<close> reported, or returns (\<open>Inr\<close>).
\<close>

definition assignValue ::
  "(nat list \<Rightarrow> error option) \<Rightarrow> val \<Rightarrow> dest \<Rightarrow> error + stored" where
  "assignValue decodeArg from to =
     (case decodeAndAssignValue decodeArg from to of
        Inl report \<Rightarrow> Inl (Error report)
      | Inr (Some e, _) \<Rightarrow> Inl e
      | Inr (None, st) \<Rightarrow> Inr st)"

subsection \<open>The memory of a workflow\<close>

text \<open>
  The callbacks that the code parks in a channel are closures over the local variables
  of the call that made them. Here each such call has a frame, found by its address
  (a number), and a callback is the name of the closure with the address of its frame:

  \<^item> \<open>ReceiveLocals k\<close> is the closure of \<^verbatim>\<open>Receive\<close>: it stores the value in \<^verbatim>\<open>result\<close>, sets
    \<^verbatim>\<open>hasResult\<close> and \<^verbatim>\<open>more\<close>, and accepts;
  \<^item> \<open>SelectReceive k c i\<close> is the closure \<^verbatim>\<open>Select\<close> makes for its case \<open>i\<close>, a receive
    from channel \<open>c\<close>; \<open>SelectFuture k s i\<close> the one for case \<open>i\<close> of selector \<open>s\<close>, a
    future; \<open>SelectSend k i\<close> the one for case \<open>i\<close>, a send. Each declines when
    \<^verbatim>\<open>readyBranch\<close> of the call is set, and otherwise sets it and accepts;
  \<^item> \<open>SendLocals k\<close> is the closure of \<^verbatim>\<open>Send\<close>: it sets \<^verbatim>\<open>valueConsumed\<close> and accepts.
\<close>

datatype receiveCallback =
    ReceiveLocals nat
  | SelectReceive nat nat nat
  | SelectFuture nat nat nat

datatype sendCallback = SendLocals nat | SelectSend nat nat

text \<open>
  The closure that \<^verbatim>\<open>readyBranch\<close> holds: for a receive case it stashes the value in
  \<^verbatim>\<open>recValue\<close> of the channel and calls the case's function with the channel and \<^verbatim>\<open>more\<close>;
  for a send case and a future case it calls the case's function.
\<close>

datatype readyBranch =
    ReceiveBranch nat val bool nat
  | SendBranch nat
  | FutureBranch nat

text \<open>
  The local variables of a call of \<^verbatim>\<open>Receive\<close> that its closure writes; \<open>more'\<close> is the
  result variable \<^verbatim>\<open>more\<close>.
\<close>

record receiveFrame =
  hasResult :: bool
  result :: val
  more' :: bool

text \<open>
  \<^verbatim>\<open>channelImpl\<close>. \<open>size'\<close> is the field \<^verbatim>\<open>size\<close>; \<open>recValue\<close> is \<open>None\<close> when the pointer is
  nil and \<open>Some v\<close> when it points to \<open>v\<close> (which may be nil itself). A blocked send is
  the pair of its value and its callback.
\<close>

record channelImpl =
  name :: label
  size' :: int
  buffer :: "val list"
  blockedSends :: "(val \<times> sendCallback) list"
  blockedReceives :: "receiveCallback list"
  closed :: bool
  recValue :: "val option"

text \<open>
  \<^verbatim>\<open>futureImpl\<close>; \<open>fvalue\<close> is the field \<^verbatim>\<open>value\<close>, \<open>channel\<close> and \<open>chained\<close> hold addresses of
  a channel and of futures.
\<close>

record futureImpl =
  fvalue :: val
  err :: "error option"
  ready :: bool
  channel :: nat
  chained :: "nat list"

text \<open>
  \<^verbatim>\<open>selectCase\<close> and \<^verbatim>\<open>selectorImpl\<close>. The functions of a case are user code: of the pointers
  \<^verbatim>\<open>receiveFunc\<close>, \<^verbatim>\<open>sendFunc\<close> and \<^verbatim>\<open>futureFunc\<close> the model keeps whether they are non-nil,
  likewise of \<^verbatim>\<open>defaultFunc\<close>. \<open>channel\<close> and \<open>future\<close> are addresses, read only in the
  cases that set them.
\<close>

record selectCase =
  channel :: nat
  receiveFunc :: bool
  sendFunc :: bool
  sendValue :: val
  future :: nat
  futureFunc :: bool

record selectorImpl =
  name :: label
  cases :: "selectCase list"
  defaultFunc :: bool

text \<open>
  The memory that channels, futures and selectors live in. Channels and selectors are
  found by their address; futures are the entries of a list, and an address beyond the
  list is a nil pointer. \<open>frameCount\<close>, \<open>chanCount\<close> and \<open>selCount\<close> are the next free
  addresses.
\<close>

record world =
  chans :: "nat \<Rightarrow> channelImpl"
  futs :: "futureImpl list"
  sels :: "nat \<Rightarrow> selectorImpl"
  receiveFrames :: "nat \<Rightarrow> receiveFrame"
  sendFrames :: "nat \<Rightarrow> bool"
  selectFrames :: "nat \<Rightarrow> readyBranch option"
  frameCount :: nat
  chanCount :: nat
  selCount :: nat

text \<open>Writing a channel, a future's fields and a selector's case back to the memory.\<close>

definition setChan :: "nat \<Rightarrow> channelImpl \<Rightarrow> world \<Rightarrow> world" where
  "setChan c ch w = w\<lparr>chans := (chans w)(c := ch)\<rparr>"

definition clearFutureFunc :: "nat \<Rightarrow> nat \<Rightarrow> world \<Rightarrow> world" where
  "clearFutureFunc s i w =
     (let sel = sels w s
      in w\<lparr>sels := (sels w)(s := sel\<lparr>cases := (cases sel)[i := (cases sel ! i)\<lparr>futureFunc := False\<rparr>]\<rparr>)\<rparr>)"

subsection \<open>Calling a parked callback\<close>

text \<open>A \<^verbatim>\<open>receiveCallback\<close> called with \<open>v\<close> and \<open>m\<close>: whether it accepts, and the memory after.\<close>

definition runReceiveCallback :: "receiveCallback \<Rightarrow> val \<Rightarrow> bool \<Rightarrow> world \<Rightarrow> bool \<times> world" where
  "runReceiveCallback cb v m w =
     (case cb of
        ReceiveLocals k \<Rightarrow>
          (True, w\<lparr>receiveFrames :=
                     (receiveFrames w)(k := \<lparr>hasResult = True, result = v, more' = m\<rparr>)\<rparr>)
      | SelectReceive k c i \<Rightarrow>
          (case selectFrames w k of
             Some b \<Rightarrow> (False, w)
           | None \<Rightarrow>
               (True, w\<lparr>selectFrames := (selectFrames w)(k := Some (ReceiveBranch c v m i))\<rparr>))
      | SelectFuture k s i \<Rightarrow>
          (case selectFrames w k of
             Some b \<Rightarrow> (False, w)
           | None \<Rightarrow>
               (True, (clearFutureFunc s i w)
                        \<lparr>selectFrames := (selectFrames w)(k := Some (FutureBranch i))\<rparr>)))"

text \<open>The callback of a blocked send.\<close>

definition runSendCallback :: "sendCallback \<Rightarrow> world \<Rightarrow> bool \<times> world" where
  "runSendCallback cb w =
     (case cb of
        SendLocals k \<Rightarrow> (True, w\<lparr>sendFrames := (sendFrames w)(k := True)\<rparr>)
      | SelectSend k i \<Rightarrow>
          (case selectFrames w k of
             Some b \<Rightarrow> (False, w)
           | None \<Rightarrow> (True, w\<lparr>selectFrames := (selectFrames w)(k := Some (SendBranch i))\<rparr>)))"

subsection \<open>Channels\<close>

text \<open>
  The loop \<^verbatim>\<open>for len(c.blockedSends) > 0\<close> of \<^verbatim>\<open>receiveAsyncImpl\<close>: it takes blocked sends
  off the queue until the callback of one accepts. The result is the value of that
  send, if any, the queue that is left, and the memory after the callbacks.
\<close>

fun takeBlockedSend ::
  "(val \<times> sendCallback) list \<Rightarrow> world \<Rightarrow> val option \<times> (val \<times> sendCallback) list \<times> world" where
  "takeBlockedSend [] w = (None, [], w)"
| "takeBlockedSend (b # rest) w =
     (case runSendCallback (snd b) w of
        (True, w') \<Rightarrow> (Some (fst b), rest, w')
      | (False, w') \<Rightarrow> takeBlockedSend rest w')"

text \<open>
  \<^verbatim>\<open>receiveAsyncImpl\<close> on the channel at \<open>c\<close>; \<open>callback\<close> is \<open>None\<close> for nil. The result is
  \<open>(v, ok, more)\<close> and the memory after the call.
\<close>

definition receiveAsyncImpl ::
  "receiveCallback option \<Rightarrow> nat \<Rightarrow> world \<Rightarrow> (val \<times> bool \<times> bool) \<times> world" where
  "receiveAsyncImpl callback c w =
     (let ch = chans w c in
      case recValue ch of
        Some r \<Rightarrow> ((r, True, True), setChan c (ch\<lparr>recValue := None\<rparr>) w)
      | None \<Rightarrow>
          (case buffer ch of
             r # rest \<Rightarrow> ((r, True, True), setChan c (ch\<lparr>buffer := rest\<rparr>) w)
           | [] \<Rightarrow>
               if channelImpl.closed ch then ((Nil, False, False), w)
               else
                 (case takeBlockedSend (blockedSends ch) w of
                    (Some v, rest, w') \<Rightarrow>
                      ((v, True, True), setChan c ((chans w' c)\<lparr>blockedSends := rest\<rparr>) w')
                  | (None, rest, w') \<Rightarrow>
                      (let ch' = (chans w' c)\<lparr>blockedSends := rest\<rparr>
                       in ((Nil, False, True),
                           setChan c
                             (case callback of
                                None \<Rightarrow> ch'
                              | Some cb \<Rightarrow> ch'\<lparr>blockedReceives := blockedReceives ch' @ [cb]\<rparr>)
                             w')))))"

text \<open>
  The loop \<^verbatim>\<open>for len(c.blockedReceives) > 0\<close> of \<^verbatim>\<open>sendAsyncImpl\<close>: whether a blocked
  receive accepted \<open>v\<close>, the queue that is left, and the memory after the callbacks.
\<close>

fun offerBlockedReceives ::
  "receiveCallback list \<Rightarrow> val \<Rightarrow> world \<Rightarrow> bool \<times> receiveCallback list \<times> world" where
  "offerBlockedReceives [] v w = (False, [], w)"
| "offerBlockedReceives (blockedGet # rest) v w =
     (case runReceiveCallback blockedGet v True w of
        (True, w') \<Rightarrow> (True, rest, w')
      | (False, w') \<Rightarrow> offerBlockedReceives rest v w')"

text \<open>
  \<^verbatim>\<open>sendAsyncImpl\<close> on the channel at \<open>c\<close>; \<open>pair\<close> is \<open>None\<close> for nil. \<open>Inl\<close> is the panic,
  \<open>Inr ok\<close> the return.
\<close>

definition sendAsyncImpl ::
  "val \<Rightarrow> (val \<times> sendCallback) option \<Rightarrow> nat \<Rightarrow> world \<Rightarrow> (string + bool) \<times> world" where
  "sendAsyncImpl v pair c w =
     (if channelImpl.closed (chans w c) then (Inl ''Closed channel'', w)
      else
        (case offerBlockedReceives (blockedReceives (chans w c)) v w of
           (True, rest, w') \<Rightarrow> (Inr True, setChan c ((chans w' c)\<lparr>blockedReceives := rest\<rparr>) w')
         | (False, rest, w') \<Rightarrow>
             (let ch = (chans w' c)\<lparr>blockedReceives := rest\<rparr>
              in if int (length (buffer ch)) < size' ch
                 then (Inr True, setChan c (ch\<lparr>buffer := buffer ch @ [v]\<rparr>) w')
                 else
                   (Inr False,
                    setChan c
                      (case pair of
                         None \<Rightarrow> ch
                       | Some p \<Rightarrow> ch\<lparr>blockedSends := blockedSends ch @ [p]\<rparr>)
                      w'))))"

text \<open>\<^verbatim>\<open>Close\<close>: the flag, then the callback of every blocked receive and of every blocked send.\<close>

definition Close :: "nat \<Rightarrow> world \<Rightarrow> world" where
  "Close c w =
     (let w1 = setChan c ((chans w c)\<lparr>channelImpl.closed := True\<rparr>) w;
          w2 = fold (\<lambda>callback w. snd (runReceiveCallback callback Nil False w))
                 (blockedReceives (chans w1 c)) w1
      in fold (\<lambda>b w. snd (runSendCallback (snd b) w)) (blockedSends (chans w2 c)) w2)"

text \<open>
  A call that may block ends in one of three ways: it returns, it panics, or the
  coroutine yields inside it (\<^verbatim>\<open>state.yield\<close>), to go on when the dispatcher calls the
  coroutine again. \<open>Yielded k\<close> carries the address of the frame of the call. The
  calls \<^verbatim>\<open>state.unblocked()\<close> only clear the flag \<^verbatim>\<open>keptBlocked\<close> of the coroutine, which
  the dispatcher reads, and are not part of these functions.
\<close>

datatype 'a blocking = Returned 'a | Yielded nat | Panicked string

text \<open>How a panic with an error value is shown.\<close>

fun message :: "error \<Rightarrow> string" where
  "message ErrCanceled = ''ErrCanceled''"
| "message (Error m) = m"

text \<open>
  One turn of the loop at the end of \<^verbatim>\<open>Receive\<close>, for the call with frame \<open>k\<close>: it runs
  when the call enters the loop and each time the coroutine is resumed. The result of
  \<^verbatim>\<open>Receive\<close> is \<^verbatim>\<open>more\<close> and what was stored through \<^verbatim>\<open>valuePtr\<close>.
\<close>

definition Receive_loop ::
  "(nat list \<Rightarrow> error option) \<Rightarrow> nat \<Rightarrow> dest \<Rightarrow> world \<Rightarrow> (bool \<times> stored) blocking \<times> world" where
  "Receive_loop decodeArg k valuePtr w =
     (let fr = receiveFrames w k
      in if hasResult fr then
           (case assignValue decodeArg (result fr) valuePtr of
              Inl e \<Rightarrow> (Panicked (message e), w)
            | Inr st \<Rightarrow> (Returned (more' fr, st), w))
         else (Yielded k, w))"

text \<open>\<^verbatim>\<open>Receive\<close> on the channel at \<open>c\<close>, up to its return, its panic or its first yield.\<close>

definition Receive ::
  "(nat list \<Rightarrow> error option) \<Rightarrow> nat \<Rightarrow> dest \<Rightarrow> world \<Rightarrow> (bool \<times> stored) blocking \<times> world" where
  "Receive decodeArg c valuePtr w =
     (let k = frameCount w;
          w0 = w\<lparr>frameCount := k + 1,
                 receiveFrames :=
                   (receiveFrames w)(k := \<lparr>hasResult = False, result = Nil, more' = False\<rparr>)\<rparr>
      in case receiveAsyncImpl (Some (ReceiveLocals k)) c w0 of
           ((v, ok, m), w1) \<Rightarrow>
             (let w2 = w1\<lparr>receiveFrames := (receiveFrames w1)(k := (receiveFrames w1 k)\<lparr>more' := m\<rparr>)\<rparr>
              in if ok \<or> \<not> m then
                   (case assignValue decodeArg v valuePtr of
                      Inl e \<Rightarrow> (Panicked (message e), w2)
                    | Inr st \<Rightarrow> (Returned (m, st), w2))
                 else Receive_loop decodeArg k valuePtr w2))"

text \<open>\<^verbatim>\<open>ReceiveAsyncWithMoreFlag\<close>: \<open>Inl\<close> is the panic of \<^verbatim>\<open>assignValue\<close>, \<open>Inr (ok, more, stored)\<close> the return.\<close>

definition ReceiveAsyncWithMoreFlag ::
  "(nat list \<Rightarrow> error option) \<Rightarrow> nat \<Rightarrow> dest \<Rightarrow> world \<Rightarrow> (string + bool \<times> bool \<times> stored) \<times> world" where
  "ReceiveAsyncWithMoreFlag decodeArg c valuePtr w =
     (case receiveAsyncImpl None c w of
        ((v, ok, m), w1) \<Rightarrow>
          (case assignValue decodeArg v valuePtr of
             Inl e \<Rightarrow> (Inl (message e), w1)
           | Inr st \<Rightarrow> (Inr (ok, m, st), w1)))"

definition ReceiveAsync ::
  "(nat list \<Rightarrow> error option) \<Rightarrow> nat \<Rightarrow> dest \<Rightarrow> world \<Rightarrow> (string + bool \<times> stored) \<times> world" where
  "ReceiveAsync decodeArg c valuePtr w =
     (case ReceiveAsyncWithMoreFlag decodeArg c valuePtr w of
        (Inl e, w1) \<Rightarrow> (Inl e, w1)
      | (Inr (ok, m, st), w1) \<Rightarrow> (Inr (ok, st), w1))"

text \<open>One turn of the loop at the end of \<^verbatim>\<open>Send\<close>, for the call with frame \<open>k\<close> on the channel at \<open>c\<close>.\<close>

definition Send_loop :: "nat \<Rightarrow> nat \<Rightarrow> world \<Rightarrow> unit blocking \<times> world" where
  "Send_loop k c w =
     (if channelImpl.closed (chans w c) then (Panicked ''Closed channel'', w)
      else if sendFrames w k then (Returned (), w)
      else (Yielded k, w))"

text \<open>\<^verbatim>\<open>Send\<close>, up to its return, its panic or its first yield, and \<^verbatim>\<open>SendAsync\<close>.\<close>

definition Send :: "nat \<Rightarrow> val \<Rightarrow> world \<Rightarrow> unit blocking \<times> world" where
  "Send c v w =
     (let k = frameCount w;
          w0 = w\<lparr>frameCount := k + 1, sendFrames := (sendFrames w)(k := False)\<rparr>
      in case sendAsyncImpl v (Some (v, SendLocals k)) c w0 of
           (Inl e, w1) \<Rightarrow> (Panicked e, w1)
         | (Inr True, w1) \<Rightarrow> (Returned (), w1)
         | (Inr False, w1) \<Rightarrow> Send_loop k c w1)"

definition SendAsync :: "nat \<Rightarrow> val \<Rightarrow> world \<Rightarrow> (string + bool) \<times> world" where
  "SendAsync c v w = sendAsyncImpl v None c w"

text \<open>
  \<open>n\<close> calls of \<^verbatim>\<open>receiveAsyncImpl(nil)\<close> in a row on the channel at \<open>c\<close>: their results in
  order, and the memory after the last.
\<close>

fun receiveMany :: "nat \<Rightarrow> nat \<Rightarrow> world \<Rightarrow> (val \<times> bool \<times> bool) list \<times> world" where
  "receiveMany 0 c w = ([], w)"
| "receiveMany (Suc n) c w =
     (case receiveAsyncImpl None c w of
        (r, w1) \<Rightarrow> (case receiveMany n c w1 of (rs, w2) \<Rightarrow> (r # rs, w2)))"

text \<open>The values a channel holds for its receivers: the stashed one, then the buffer.\<close>

definition held :: "channelImpl \<Rightarrow> val list" where
  "held ch = (case recValue ch of None \<Rightarrow> [] | Some r \<Rightarrow> [r]) @ buffer ch"

text \<open>A memory with nothing in it but empty, open, unbuffered channels.\<close>

definition emptyWorld :: world where
  "emptyWorld =
     \<lparr>chans = (\<lambda>c. \<lparr>channelImpl.name = Named [], size' = 0, buffer = [], blockedSends = [],
                      blockedReceives = [], channelImpl.closed = False, recValue = None\<rparr>),
      futs = [],
      sels = (\<lambda>s. \<lparr>selectorImpl.name = Named [], cases = [], defaultFunc = False\<rparr>),
      receiveFrames = (\<lambda>k. \<lparr>hasResult = False, result = Nil, more' = False\<rparr>),
      sendFrames = (\<lambda>k. False),
      selectFrames = (\<lambda>k. None),
      frameCount = 0, chanCount = 0, selCount = 0\<rparr>"

text \<open>The codec of the examples decodes every byte slice.\<close>

definition decodesAll :: "nat list \<Rightarrow> error option" where
  "decodesAll data = None"

text \<open>
  What the callback of a blocked send leaves behind once it has been called:
  \<^verbatim>\<open>valueConsumed\<close> of the \<^verbatim>\<open>Send\<close> is set, \<^verbatim>\<open>readyBranch\<close> of the \<^verbatim>\<open>Select\<close> is set (by this
  callback or by one before it).
\<close>

definition called :: "sendCallback \<Rightarrow> world \<Rightarrow> bool" where
  "called cb w = (case cb of SendLocals k \<Rightarrow> sendFrames w k | SelectSend k i \<Rightarrow> selectFrames w k \<noteq> None)"

text \<open>
  Examples: channel 0 closed with nothing in it; channel 0 holding a stashed value and
  two buffered ones; an unbuffered channel 0 on which a \<^verbatim>\<open>Send\<close> has parked.
\<close>

definition closedDrained :: world where
  "closedDrained = Close 0 emptyWorld"

definition threeHeld :: world where
  "threeHeld =
     setChan 0 ((chans emptyWorld 0)
       \<lparr>size' := 2, buffer := [Obj ''b'', Obj ''c''], recValue := Some (Obj ''a'')\<rparr>) emptyWorld"

definition parkedSend :: world where
  "parkedSend = snd (Send 0 (Obj ''x'') emptyWorld)"

subsection \<open>Futures\<close>

text \<open>What the runtime reports when a nil pointer is dereferenced.\<close>

definition nilDereference :: string where
  "nilDereference = ''invalid memory address or nil pointer dereference''"

text \<open>
  The code of \<^verbatim>\<open>futureImpl.Get\<close> after \<^verbatim>\<open>f.channel.Receive(ctx, nil)\<close> has returned \<open>m\<close>. The
  result of \<^verbatim>\<open>Get\<close> is the error it returns and what it stored through \<^verbatim>\<open>value\<close>; it panics
  when \<^verbatim>\<open>rf.Elem().Set(fv)\<close> does.
\<close>

definition Get_after :: "nat \<Rightarrow> dest \<Rightarrow> bool \<Rightarrow> world \<Rightarrow> (error option \<times> stored) blocking" where
  "Get_after f valuePtr m w =
     (let fu = futs w ! f
      in if m then Panicked ''not closed''
         else if \<not> ready fu then Panicked ''not ready''
         else if err fu \<noteq> None \<or> fvalue fu = Nil \<or> valuePtr = NilDest
           then Returned (err fu, Unchanged)
         else if valuePtr = NotPointer
           then Returned (Some (Error ''value parameter is not a pointer''), Unchanged)
         else
           (case valuePtr of
              Unsettable report \<Rightarrow> Panicked report
            | _ \<Rightarrow> Returned (err fu, Assigned (fvalue fu))))"

text \<open>
  \<^verbatim>\<open>futureImpl.Get\<close> on the future at \<open>f\<close>, up to its return, its panic or the first yield
  of its \<^verbatim>\<open>Receive\<close>; and what it does when the coroutine is resumed in that \<^verbatim>\<open>Receive\<close>,
  whose frame is \<open>k\<close>.
\<close>

definition Get ::
  "(nat list \<Rightarrow> error option) \<Rightarrow> nat \<Rightarrow> dest \<Rightarrow> world \<Rightarrow> (error option \<times> stored) blocking \<times> world" where
  "Get decodeArg f valuePtr w =
     (if length (futs w) \<le> f then (Panicked nilDereference, w)
      else
        (case Receive decodeArg (futureImpl.channel (futs w ! f)) NilDest w of
           (Returned r, w1) \<Rightarrow> (Get_after f valuePtr (fst r) w1, w1)
         | (Yielded k, w1) \<Rightarrow> (Yielded k, w1)
         | (Panicked e, w1) \<Rightarrow> (Panicked e, w1)))"

definition Get_resumed ::
  "(nat list \<Rightarrow> error option) \<Rightarrow> nat \<Rightarrow> nat \<Rightarrow> dest \<Rightarrow> world \<Rightarrow>
   (error option \<times> stored) blocking \<times> world" where
  "Get_resumed decodeArg k f valuePtr w =
     (case Receive_loop decodeArg k NilDest w of
        (Returned r, w1) \<Rightarrow> (Get_after f valuePtr (fst r) w1, w1)
      | (Yielded k', w1) \<Rightarrow> (Yielded k', w1)
      | (Panicked e, w1) \<Rightarrow> (Panicked e, w1))"

text \<open>
  \<^verbatim>\<open>decodeFutureImpl.Get\<close> differs in its last step: it decodes the bytes of the value
  with \<^verbatim>\<open>deSerializeFunctionResult\<close>, which lives outside these files and is the
  parameter \<open>deSerialize\<close> here (the error of decoding the bytes for the future's
  function, if any); the type assertion \<^verbatim>\<open>value.([]byte)\<close> panics on any other value.
\<close>

definition decodeGet_after ::
  "(nat list \<Rightarrow> error option) \<Rightarrow> nat \<Rightarrow> dest \<Rightarrow> bool \<Rightarrow> world \<Rightarrow>
   (error option \<times> stored) blocking" where
  "decodeGet_after deSerialize f valuePtr m w =
     (let fu = futs w ! f
      in if m then Panicked ''not closed''
         else if \<not> ready fu then Panicked ''not ready''
         else if err fu \<noteq> None \<or> fvalue fu = Nil \<or> valuePtr = NilDest
           then Returned (err fu, Unchanged)
         else if valuePtr = NotPointer
           then Returned (Some (Error ''value parameter is not a pointer''), Unchanged)
         else
           (case fvalue fu of
              Bytes data \<Rightarrow>
                (case deSerialize data of
                   Some e \<Rightarrow> Returned (Some e, Unchanged)
                 | None \<Rightarrow> Returned (err fu, DecodedFrom data))
            | v \<Rightarrow> Panicked ''interface conversion: interface {} is not []uint8''))"

definition decodeGet ::
  "(nat list \<Rightarrow> error option) \<Rightarrow> (nat list \<Rightarrow> error option) \<Rightarrow> nat \<Rightarrow> dest \<Rightarrow> world \<Rightarrow>
   (error option \<times> stored) blocking \<times> world" where
  "decodeGet decodeArg deSerialize f valuePtr w =
     (if length (futs w) \<le> f then (Panicked nilDereference, w)
      else
        (case Receive decodeArg (futureImpl.channel (futs w ! f)) NilDest w of
           (Returned r, w1) \<Rightarrow> (decodeGet_after deSerialize f valuePtr (fst r) w1, w1)
         | (Yielded k, w1) \<Rightarrow> (Yielded k, w1)
         | (Panicked e, w1) \<Rightarrow> (Panicked e, w1)))"

text \<open>\<^verbatim>\<open>GetAsync\<close>: \<open>Inl\<close> is the panic, \<open>Inr (v, ok, err)\<close> the return.\<close>

definition GetAsync ::
  "receiveCallback option \<Rightarrow> nat \<Rightarrow> world \<Rightarrow> (string + val \<times> bool \<times> error option) \<times> world" where
  "GetAsync callback f w =
     (if length (futs w) \<le> f then (Inl nilDereference, w)
      else
        (case receiveAsyncImpl callback (futureImpl.channel (futs w ! f)) w of
           ((v, ok, m), w1) \<Rightarrow>
             if m then (Inr (Nil, False, None), w1)
             else if \<not> ready (futs w1 ! f) then (Inl ''not ready'', w1)
             else (Inr (fvalue (futs w1 ! f), True, err (futs w1 ! f)), w1)))"

definition IsReady :: "nat \<Rightarrow> world \<Rightarrow> bool" where
  "IsReady f w = ready (futs w ! f)"

text \<open>The futures of the memory that are not ready, by address.\<close>

definition pending :: "world \<Rightarrow> nat set" where
  "pending w = {f. f < length (futs w) \<and> \<not> ready (futs w ! f)}"

text \<open>
  \<^verbatim>\<open>Set\<close> sets the fields, closes the channel and then calls \<^verbatim>\<open>Set\<close>, with the same value
  and error, on each future of \<^verbatim>\<open>chained\<close> in turn, which does the same with its own
  list before the next one is reached. \<open>setAll\<close> is this recursion with the futures
  still to be set kept in a list, the one to be set next at its head: the calls that
  the source has on its stack. A future that is already ready stops everything with
  the panic, as it unwinds the whole stack in the source; the memory is then as the
  calls so far have left it.
\<close>

function setAll :: "nat list \<Rightarrow> val \<Rightarrow> error option \<Rightarrow> world \<Rightarrow> unit blocking \<times> world" where
  "setAll [] v e w = (Returned (), w)"
| "setAll (f # rest) v e w =
     (if length (futs w) \<le> f then (Panicked nilDereference, w)
      else if ready (futs w ! f) then (Panicked ''already set'', w)
      else
        (let w1 = w\<lparr>futs := (futs w)[f := (futs w ! f)\<lparr>fvalue := v, err := e, ready := True\<rparr>]\<rparr>;
             w2 = Close (futureImpl.channel (futs w1 ! f)) w1
         in setAll (chained (futs w2 ! f) @ rest) v e w2))"
  by pat_completeness auto
termination
proof (relation "measures [\<lambda>(fs, v, e, w). card (pending w), \<lambda>(fs, v, e, w). length fs]")
  show "wf (measures [\<lambda>(fs, v, e, w). card (pending w), \<lambda>(fs, v, e, w). length fs])" by simp
next
  fix f :: nat and rest v e w w1 w2
  assume f: "\<not> length (futs w) \<le> f" and r: "\<not> ready (futs w ! f)"
    and w1: "w1 = w\<lparr>futs := (futs w)[f := (futs w ! f)\<lparr>fvalue := v, err := e, ready := True\<rparr>]\<rparr>"
    and w2: "w2 = Close (futureImpl.channel (futs w1 ! f)) w1"
  have cr: "futs (fold (\<lambda>callback w. snd (runReceiveCallback callback x m w)) cbs u) = futs u"
    for cbs x m u
    by (induction cbs arbitrary: u)
      (simp_all add: runReceiveCallback_def clearFutureFunc_def Let_def
        split: receiveCallback.split option.split)
  have cs: "futs (fold (\<lambda>b w. snd (runSendCallback (snd b) w)) bs u) = futs u" for bs u
    by (induction bs arbitrary: u)
      (simp_all add: runSendCallback_def split: sendCallback.split option.split)
  have cl: "futs (Close c u) = futs u" for c u
    by (simp add: Close_def Let_def cr cs setChan_def)
  have eq: "pending w2 = pending w - {f}"
    using f by (auto simp: pending_def w2 w1 cl nth_list_update)
  have "f \<in> pending w" using f r by (simp add: pending_def)
  moreover have "finite (pending w)" by (simp add: pending_def)
  ultimately have "card (pending w - {f}) < card (pending w)"
    by (rule card_Diff1_less [rotated])
  then have "card (pending w2) < card (pending w)" by (simp only: eq)
  then show "((chained (futs w2 ! f) @ rest, v, e, w2), f # rest, v, e, w)
      \<in> measures [\<lambda>(fs, v, e, w). card (pending w), \<lambda>(fs, v, e, w). length fs]"
    by simp
qed

definition Set :: "nat \<Rightarrow> val \<Rightarrow> error option \<Rightarrow> world \<Rightarrow> unit blocking \<times> world" where
  "Set f v e w = setAll [f] v e w"

definition SetValue :: "nat \<Rightarrow> val \<Rightarrow> world \<Rightarrow> unit blocking \<times> world" where
  "SetValue f v w =
     (if length (futs w) \<le> f then (Panicked nilDereference, w)
      else if ready (futs w ! f) then (Panicked ''already set'', w)
      else Set f v None w)"


text \<open>
  \<^verbatim>\<open>ChainFuture\<close> and \<^verbatim>\<open>Chain\<close>. \<open>Chain f g\<close> is \<^verbatim>\<open>f.Chain(g)\<close>; every future of the memory is
  an \<^verbatim>\<open>asyncFuture\<close>, an address beyond it is a value that is none.
\<close>

definition ChainFuture :: "nat \<Rightarrow> nat \<Rightarrow> world \<Rightarrow> world" where
  "ChainFuture f g w = w\<lparr>futs := (futs w)[f := (futs w ! f)\<lparr>chained := chained (futs w ! f) @ [g]\<rparr>]\<rparr>"

definition Chain :: "nat \<Rightarrow> nat \<Rightarrow> world \<Rightarrow> unit blocking \<times> world" where
  "Chain f g w =
     (if length (futs w) \<le> f then (Panicked nilDereference, w)
      else if ready (futs w ! f) then (Panicked ''already set'', w)
      else if length (futs w) \<le> g
        then (Panicked ''cannot chain Future that wasn't created with cadence.NewFuture'', w)
      else if \<not> IsReady g w then (Returned (), ChainFuture g f w)
      else
        (Returned (),
         w\<lparr>futs := (futs w)[f := (futs w ! f)
           \<lparr>fvalue := fvalue (futs w ! g), err := err (futs w ! g), ready := True\<rparr>]\<rparr>))"

text \<open>
  \<^verbatim>\<open>NewChannel\<close>, \<^verbatim>\<open>NewBufferedChannel\<close> and \<^verbatim>\<open>NewFuture\<close> in the memory: the new object gets
  the next free address. \<open>n\<close> is the value of the dispatcher's \<^verbatim>\<open>channelSequence\<close> after
  its increment.
\<close>

definition newChannel :: "label \<Rightarrow> int \<Rightarrow> world \<Rightarrow> nat \<times> world" where
  "newChannel nm sz w =
     (chanCount w,
      (setChan (chanCount w)
         \<lparr>channelImpl.name = nm, size' = sz, buffer = [], blockedSends = [],
          blockedReceives = [], channelImpl.closed = False, recValue = None\<rparr> w)
       \<lparr>chanCount := chanCount w + 1\<rparr>)"

definition NewChannel :: "int \<Rightarrow> world \<Rightarrow> nat \<times> world" where
  "NewChannel n w = newChannel (Numbered n) 0 w"

definition NewBufferedChannel :: "int \<Rightarrow> world \<Rightarrow> nat \<times> world" where
  "NewBufferedChannel sz w = newChannel (Named []) sz w"

definition NewFuture :: "int \<Rightarrow> world \<Rightarrow> nat \<times> world" where
  "NewFuture n w =
     (case NewChannel n w of
        (c, w1) \<Rightarrow>
          (length (futs w1),
           w1\<lparr>futs := futs w1 @
                 [\<lparr>fvalue = Nil, err = None, ready = False, futureImpl.channel = c,
                   chained = []\<rparr>]\<rparr>))"



text \<open>
  Examples. Two futures made by \<^verbatim>\<open>NewFuture\<close>, at the addresses 0 and 1. In
  \<open>chainedReady\<close>, future 1 was chained to future 0 and then set by itself. In
  \<open>chainedToReady\<close>, future 0 was set and future 1 was then chained to it.
\<close>

definition twoFutures :: world where
  "twoFutures = snd (NewFuture 2 (snd (NewFuture 1 emptyWorld)))"



definition chainedToReady :: world where
  "chainedToReady = snd (Chain 1 0 (snd (SetValue 0 (Obj ''v'') twoFutures)))"

subsection \<open>Selectors\<close>

text \<open>\<^verbatim>\<open>NewNamedSelector\<close> and \<^verbatim>\<open>NewSelector\<close>; \<open>n\<close> is \<^verbatim>\<open>selectorSequence\<close> after its increment.\<close>

definition NewNamedSelector :: "label \<Rightarrow> world \<Rightarrow> nat \<times> world" where
  "NewNamedSelector nm w =
     (selCount w,
      w\<lparr>sels := (sels w)(selCount w := \<lparr>selectorImpl.name = nm, cases = [], defaultFunc = False\<rparr>),
        selCount := selCount w + 1\<rparr>)"

definition NewSelector :: "int \<Rightarrow> world \<Rightarrow> nat \<times> world" where
  "NewSelector n w = NewNamedSelector (Numbered n) w"

text \<open>
  \<^verbatim>\<open>AddReceive\<close>, \<^verbatim>\<open>AddSend\<close>, \<^verbatim>\<open>AddFuture\<close> and \<^verbatim>\<open>AddDefault\<close> on the selector at \<open>s\<close>. The
  fields that a case does not set are nil; \<^verbatim>\<open>AddFuture\<close> panics for a future that is not
  an \<^verbatim>\<open>asyncFuture\<close>.
\<close>

definition addCase :: "nat \<Rightarrow> selectCase \<Rightarrow> world \<Rightarrow> world" where
  "addCase s pair w = w\<lparr>sels := (sels w)(s := (sels w s)\<lparr>cases := cases (sels w s) @ [pair]\<rparr>)\<rparr>"

definition AddReceive :: "nat \<Rightarrow> nat \<Rightarrow> world \<Rightarrow> world" where
  "AddReceive s c w =
     addCase s \<lparr>selectCase.channel = c, receiveFunc = True, sendFunc = False, sendValue = Nil,
                future = 0, futureFunc = False\<rparr> w"

definition AddSend :: "nat \<Rightarrow> nat \<Rightarrow> val \<Rightarrow> world \<Rightarrow> world" where
  "AddSend s c v w =
     addCase s \<lparr>selectCase.channel = c, receiveFunc = False, sendFunc = True, sendValue = v,
                future = 0, futureFunc = False\<rparr> w"

definition AddFuture :: "nat \<Rightarrow> nat \<Rightarrow> world \<Rightarrow> unit blocking \<times> world" where
  "AddFuture s f w =
     (if length (futs w) \<le> f
      then (Panicked ''cannot chain Future that wasn't created with cadence.NewFuture'', w)
      else
        (Returned (),
         addCase s \<lparr>selectCase.channel = 0, receiveFunc = False, sendFunc = False, sendValue = Nil,
                    future = f, futureFunc = True\<rparr> w))"

definition AddDefault :: "nat \<Rightarrow> world \<Rightarrow> world" where
  "AddDefault s w = w\<lparr>sels := (sels w)(s := (sels w s)\<lparr>defaultFunc := True\<rparr>)\<rparr>"

text \<open>
  What a \<^verbatim>\<open>Select\<close> ends with: the function of the case at an index, called with \<^verbatim>\<open>more\<close>
  for a receive case, or the default function. The functions themselves are user code
  and run after the model's \<^verbatim>\<open>Select\<close>.
\<close>

datatype fired = ReceiveFired nat bool | SendFired nat | FutureFired nat | DefaultFired

text \<open>One turn of the loop over \<^verbatim>\<open>s.cases\<close>: the case fires, the loop goes on, or the call panics.\<close>

datatype probe = Fires fired | Passes | Panics string

text \<open>
  The body of the loop over \<^verbatim>\<open>s.cases\<close> for the case at index \<open>i\<close>, in the call of
  \<^verbatim>\<open>Select\<close> with frame \<open>k\<close> on the selector at \<open>s\<close>. The case is read through its pointer,
  so from the memory as it is when the loop reaches it.
\<close>

definition probeCase :: "nat \<Rightarrow> nat \<Rightarrow> nat \<Rightarrow> world \<Rightarrow> probe \<times> world" where
  "probeCase k s i w =
     (let pair = cases (sels w s) ! i; c = selectCase.channel pair
      in if receiveFunc pair then
           (case receiveAsyncImpl (Some (SelectReceive k c i)) c w of
              ((v, ok, m), w1) \<Rightarrow>
                if ok \<or> \<not> m
                then (Fires (ReceiveFired i m), setChan c ((chans w1 c)\<lparr>recValue := Some v\<rparr>) w1)
                else (Passes, w1))
         else if sendFunc pair then
           (case sendAsyncImpl (sendValue pair) (Some (sendValue pair, SelectSend k i)) c w of
              (Inl e, w1) \<Rightarrow> (Panics e, w1)
            | (Inr True, w1) \<Rightarrow> (Fires (SendFired i), w1)
            | (Inr False, w1) \<Rightarrow> (Passes, w1))
         else if futureFunc pair then
           (case GetAsync (Some (SelectFuture k s i)) (future pair) w of
              (Inl e, w1) \<Rightarrow> (Panics e, w1)
            | (Inr (v, ok, e), w1) \<Rightarrow>
                if ok then (Fires (FutureFired i), clearFutureFunc s i w1) else (Passes, w1))
         else (Passes, w))"

text \<open>The loop over \<^verbatim>\<open>s.cases\<close>, by the indices of the slice it ranges over.\<close>

fun probeCases :: "nat \<Rightarrow> nat \<Rightarrow> nat list \<Rightarrow> world \<Rightarrow> probe \<times> world" where
  "probeCases k s [] w = (Passes, w)"
| "probeCases k s (i # rest) w =
     (case probeCase k s i w of
        (Passes, w1) \<Rightarrow> probeCases k s rest w1
      | (r, w1) \<Rightarrow> (r, w1))"

text \<open>
  One turn of the loop at the end of \<^verbatim>\<open>Select\<close>, for the call with frame \<open>k\<close>: it runs when
  the call enters the loop and each time the coroutine is resumed. A \<^verbatim>\<open>readyBranch\<close> is
  run: the one of a receive case stashes its value in \<^verbatim>\<open>recValue\<close> of the channel.
\<close>

definition Select_loop :: "nat \<Rightarrow> world \<Rightarrow> fired blocking \<times> world" where
  "Select_loop k w =
     (case selectFrames w k of
        None \<Rightarrow> (Yielded k, w)
      | Some (ReceiveBranch c v m i) \<Rightarrow>
          (Returned (ReceiveFired i m), setChan c ((chans w c)\<lparr>recValue := Some v\<rparr>) w)
      | Some (SendBranch i) \<Rightarrow> (Returned (SendFired i), w)
      | Some (FutureBranch i) \<Rightarrow> (Returned (FutureFired i), w))"

text \<open>\<^verbatim>\<open>Select\<close> on the selector at \<open>s\<close>, up to its return, its panic or its first yield.\<close>

definition Select :: "nat \<Rightarrow> world \<Rightarrow> fired blocking \<times> world" where
  "Select s w =
     (let k = frameCount w;
          w0 = w\<lparr>frameCount := k + 1, selectFrames := (selectFrames w)(k := None)\<rparr>
      in case probeCases k s [0..<length (cases (sels w0 s))] w0 of
           (Fires b, w1) \<Rightarrow> (Returned b, w1)
         | (Panics e, w1) \<Rightarrow> (Panicked e, w1)
         | (Passes, w1) \<Rightarrow>
             if defaultFunc (sels w1 s) then (Returned DefaultFired, w1) else Select_loop k w1)"

text \<open>
  When a case can complete at once, as a property of the memory alone. A parked
  callback accepts when it is the callback of a \<^verbatim>\<open>Send\<close> or \<^verbatim>\<open>Receive\<close>, or the callback of
  a \<^verbatim>\<open>Select\<close> whose \<^verbatim>\<open>readyBranch\<close> is still nil. A receive can complete when the channel
  holds a value, is closed, or has a blocked sender that accepts; a send can complete
  when the channel is open and has a blocked receiver that accepts or room in its
  buffer; a future is done when its channel is closed with nothing in it and the
  future is ready.
\<close>

definition acceptsSend :: "sendCallback \<Rightarrow> world \<Rightarrow> bool" where
  "acceptsSend cb w = (case cb of SendLocals k \<Rightarrow> True | SelectSend k i \<Rightarrow> selectFrames w k = None)"

definition acceptsReceive :: "receiveCallback \<Rightarrow> world \<Rightarrow> bool" where
  "acceptsReceive cb w =
     (case cb of
        ReceiveLocals k \<Rightarrow> True
      | SelectReceive k c i \<Rightarrow> selectFrames w k = None
      | SelectFuture k s i \<Rightarrow> selectFrames w k = None)"

definition canReceive :: "nat \<Rightarrow> world \<Rightarrow> bool" where
  "canReceive c w \<longleftrightarrow>
     held (chans w c) \<noteq> [] \<or> channelImpl.closed (chans w c) \<or>
     (\<exists>b \<in> set (blockedSends (chans w c)). acceptsSend (snd b) w)"

definition canSend :: "nat \<Rightarrow> world \<Rightarrow> bool" where
  "canSend c w \<longleftrightarrow>
     \<not> channelImpl.closed (chans w c) \<and>
     ((\<exists>cb \<in> set (blockedReceives (chans w c)). acceptsReceive cb w) \<or>
      int (length (buffer (chans w c))) < size' (chans w c))"

definition channelDone :: "nat \<Rightarrow> world \<Rightarrow> bool" where
  "channelDone f w \<longleftrightarrow>
     held (chans w (futureImpl.channel (futs w ! f))) = [] \<and>
     channelImpl.closed (chans w (futureImpl.channel (futs w ! f)))"

definition caseReady :: "selectCase \<Rightarrow> world \<Rightarrow> bool" where
  "caseReady pair w \<longleftrightarrow>
     (if receiveFunc pair then canReceive (selectCase.channel pair) w
      else if sendFunc pair then canSend (selectCase.channel pair) w
      else futureFunc pair \<and> future pair < length (futs w) \<and> channelDone (future pair) w \<and>
        ready (futs w ! future pair))"

text \<open>
  When a case makes \<^verbatim>\<open>Select\<close> panic: a send case whose channel is closed, a future case
  whose future is none, or whose channel is closed and drained while the future is not
  ready.
\<close>

definition casePanics :: "selectCase \<Rightarrow> world \<Rightarrow> bool" where
  "casePanics pair w \<longleftrightarrow>
     (if receiveFunc pair then False
      else if sendFunc pair then channelImpl.closed (chans w (selectCase.channel pair))
      else futureFunc pair \<and>
        (length (futs w) \<le> future pair \<or>
         channelDone (future pair) w \<and> \<not> ready (futs w ! future pair)))"

text \<open>
  The memory in which the loop of the call with frame \<open>k\<close> reaches the case at index \<open>i\<close>,
  when no case before it has ended the call: what the probes of the cases before it
  have made of the memory \<open>w\<close> at the start of the loop.
\<close>

definition stateAt :: "nat \<Rightarrow> nat \<Rightarrow> nat \<Rightarrow> world \<Rightarrow> world" where
  "stateAt k s i w = fold (\<lambda>j w. snd (probeCase k s j w)) [0..<i] w"

text \<open>The memory at the start of the loop of a \<^verbatim>\<open>Select\<close> called in \<open>w\<close>: its \<^verbatim>\<open>readyBranch\<close> is nil.\<close>

definition entered :: "world \<Rightarrow> world" where
  "entered w = w\<lparr>frameCount := frameCount w + 1, selectFrames := (selectFrames w)(frameCount w := None)\<rparr>"

text \<open>The index of the case whose function a \<^verbatim>\<open>Select\<close> called.\<close>

fun firedCase :: "fired \<Rightarrow> nat option" where
  "firedCase (ReceiveFired i m) = Some i"
| "firedCase (SendFired i) = Some i"
| "firedCase (FutureFired i) = Some i"
| "firedCase DefaultFired = None"

text \<open>
  For a \<^verbatim>\<open>Select\<close> called in the memory \<open>w\<close> on the selector at \<open>s\<close>: the case at index \<open>i\<close>
  is ready, or makes the call panic, at the time it is probed; and no case before
  index \<open>i\<close> is ready or makes the call panic at the time it is probed.
\<close>

definition readyAt :: "nat \<Rightarrow> nat \<Rightarrow> world \<Rightarrow> bool" where
  "readyAt s i w \<longleftrightarrow> caseReady (cases (sels w s) ! i) (stateAt (frameCount w) s i (entered w))"

definition panicsAt :: "nat \<Rightarrow> nat \<Rightarrow> world \<Rightarrow> bool" where
  "panicsAt s i w \<longleftrightarrow> casePanics (cases (sels w s) ! i) (stateAt (frameCount w) s i (entered w))"

definition nonePending :: "nat \<Rightarrow> nat \<Rightarrow> world \<Rightarrow> bool" where
  "nonePending s i w \<longleftrightarrow> (\<forall>j<i. \<not> readyAt s j w \<and> \<not> panicsAt s j w)"

text \<open>
  Examples. Channel 0 is empty and open, channel 1 has a buffer of one and holds a
  value, channel 2 is closed. \<open>threeReceives\<close> has a selector with a receive case on each
  of them, in this order, and a default; \<open>sendOnClosed\<close> a selector with a send case on
  channel 2 and a default.
\<close>

definition threeChannels :: world where
  "threeChannels =
     Close 2 (snd (NewChannel 2
       (snd (SendAsync 1 (Obj ''a'')
          (snd (NewBufferedChannel 1 (snd (NewChannel 1 emptyWorld))))))))"

definition threeReceives :: world where
  "threeReceives =
     AddDefault 0 (AddReceive 0 2 (AddReceive 0 1 (AddReceive 0 0
       (snd (NewSelector 1 threeChannels)))))"

definition sendOnClosed :: world where
  "sendOnClosed = AddDefault 0 (AddSend 0 2 (Obj ''b'') (snd (NewSelector 1 threeChannels)))"

text \<open>
  \<open>parkedSelectSend\<close>: a coroutine has made a channel without buffer and a selector with
  one send case on it, and is parked in \<^verbatim>\<open>Select\<close>, as no receiver is waiting.
\<close>

definition parkedSelectSend :: world where
  "parkedSelectSend =
     snd (Select 0 (AddSend 0 0 (Obj ''x'') (snd (NewSelector 1 (snd (NewChannel 1 emptyWorld))))))"

section \<open>Signals and the driver\<close>

text \<open>
  What the driver keeps for a workflow besides the dispatcher: the memory of channels,
  futures and selectors; the map \<^verbatim>\<open>signalChannels\<close> of \<^verbatim>\<open>workflowOptions\<close>, as the list of
  its entries; and what the pointer behind \<^verbatim>\<open>getWorkflowResultPointerPointer\<close> points to,
  \<open>None\<close> while the root function has not returned. \<open>observed\<close> is what the receives of
  the workflow's code have stored so far, in order.
\<close>

record workflowState =
  heap :: world
  signalChannels :: "(string \<times> nat) list"
  resultPointer :: "(val \<times> error option) option"
  observed :: "stored list"

definition defaultSignalChannelSize :: int where
  "defaultSignalChannelSize = 100000"

text \<open>\<^verbatim>\<open>getSignalChannel\<close>, which \<^verbatim>\<open>GetSignalChannel\<close> calls for the workflow's code.\<close>

definition getSignalChannel :: "string \<Rightarrow> workflowState \<Rightarrow> nat \<times> workflowState" where
  "getSignalChannel signalName m =
     (case map_of (signalChannels m) signalName of
        Some ch \<Rightarrow> (ch, m)
      | None \<Rightarrow>
          (case NewBufferedChannel defaultSignalChannelSize (heap m) of
             (ch, w1) \<Rightarrow>
               (ch, m\<lparr>heap := w1, signalChannels := signalChannels m @ [(signalName, ch)]\<rparr>)))"

text \<open>
  The handler that \<^verbatim>\<open>Execute\<close> registers with \<^verbatim>\<open>RegisterSignalHandler\<close>; the environment
  calls it between two runs of the dispatcher.
\<close>

definition signalHandler :: "string \<Rightarrow> nat list \<Rightarrow> workflowState \<Rightarrow> unit blocking \<times> workflowState" where
  "signalHandler signalName data m =
     (case getSignalChannel signalName m of
        (ch, m1) \<Rightarrow>
          (case SendAsync ch (Bytes data) (heap m1) of
             (Inl e, w1) \<Rightarrow> (Panicked e, m1\<lparr>heap := w1\<rparr>)
           | (Inr True, w1) \<Rightarrow> (Returned (), m1\<lparr>heap := w1\<rparr>)
           | (Inr False, w1) \<Rightarrow>
               (Panicked (''Exceeded channel buffer size for signal: '' @ signalName),
                m1\<lparr>heap := w1\<rparr>)))"

text \<open>
  The body of the loop of \<^verbatim>\<open>getUnhandledSignals\<close> for one entry of the map, and the
  function. The order in which \<^verbatim>\<open>range\<close> yields the entries of a map is not fixed: the
  function gets them as the list \<open>entries\<close>, in the order of the run.
\<close>

definition peekSignal :: "string \<times> nat \<Rightarrow> string list \<times> world \<Rightarrow> string list \<times> world" where
  "peekSignal kc uw =
     (case receiveAsyncImpl None (snd kc) (snd uw) of
        ((v, ok, m), w1) \<Rightarrow>
          if ok
          then (fst uw @ [fst kc], setChan (snd kc) ((chans w1 (snd kc))\<lparr>recValue := Some v\<rparr>) w1)
          else (fst uw, w1))"

definition getUnhandledSignals :: "(string \<times> nat) list \<Rightarrow> world \<Rightarrow> string list \<times> world" where
  "getUnhandledSignals entries w = fold peekSignal entries ([], w)"

text \<open>What \<^verbatim>\<open>executeDispatcher\<close> asks of the environment: the two log lines and \<^verbatim>\<open>Complete\<close>.\<close>

datatype envCall =
    LogError PanicError
  | LogWarn "string list"
  | EnvComplete val "error option"

text \<open>
  \<^verbatim>\<open>checkUnhandledSigFn\<close> and \<^verbatim>\<open>executeDispatcher\<close>. \<open>ranged\<close> gives the order in which the
  \<^verbatim>\<open>range\<close> of this run yields the entries of the map. The result is \<open>None\<close> when the
  dispatcher never returns, \<open>Inl\<close> when it panics itself, and otherwise the calls to
  the environment with the dispatcher and the state after them.
\<close>

definition checkUnhandledSigFn ::
  "((string \<times> nat) list \<Rightarrow> (string \<times> nat) list) \<Rightarrow> workflowState \<Rightarrow> envCall list \<times> workflowState" where
  "checkUnhandledSigFn ranged m =
     (case getUnhandledSignals (ranged (signalChannels m)) (heap m) of
        (us, w1) \<Rightarrow> ((if length us > 0 then [LogWarn us] else []), m\<lparr>heap := w1\<rparr>))"

definition executeDispatcher ::
  "('p \<Rightarrow> workflowState \<Rightarrow> ('p, workflowState) turn option) \<Rightarrow>
   ((string \<times> nat) list \<Rightarrow> (string \<times> nat) list) \<Rightarrow>
   'p dispatcherImpl \<times> workflowState \<Rightarrow>
   (string + envCall list \<times> 'p dispatcherImpl \<times> workflowState) option" where
  "executeDispatcher resume ranged dm =
     (case ExecuteUntilAllBlocked resume dm of
        None \<Rightarrow> None
      | Some (Inl e) \<Rightarrow> Some (Inl e)
      | Some (Inr (Some panicErr, d, m)) \<Rightarrow>
          (case checkUnhandledSigFn ranged m of
             (calls, m1) \<Rightarrow> Some (Inr (LogError panicErr # calls, d, m1)))
      | Some (Inr (None, d, m)) \<Rightarrow>
          (case resultPointer m of
             None \<Rightarrow> Some (Inr ([], d, m))
           | Some rp \<Rightarrow>
               (case checkUnhandledSigFn ranged m of
                  (calls, m1) \<Rightarrow> Some (Inr (calls @ [EnvComplete (fst rp) (snd rp)], d, m1)))))"

text \<open>
  Workflow code for examples, as what is left of it to run: return, panic, start a
  coroutine with \<^verbatim>\<open>Go\<close>, receive from a channel through a pointer, call \<^verbatim>\<open>Select\<close>;
  \<open>InReceive k\<close> and \<open>InSelect k\<close> are a coroutine parked in the \<^verbatim>\<open>Receive\<close> or \<^verbatim>\<open>Select\<close> with
  frame \<open>k\<close>. The function of a selector's case is the code that follows the \<^verbatim>\<open>Select\<close>.
\<close>

datatype routine =
    Finish
  | PanicWith string
  | GoThen routine routine
  | ReceiveThen nat routine
  | InReceive nat routine
  | SelectThen nat routine
  | InSelect nat routine

text \<open>
  Running such code up to its next yield or its end. \<open>kept\<close> is \<^verbatim>\<open>keptBlocked\<close> of the
  coroutine: \<^verbatim>\<open>yield\<close> sets it when the coroutine is resumed, and \<^verbatim>\<open>Receive\<close> and \<^verbatim>\<open>Select\<close>
  clear it with \<^verbatim>\<open>unblocked\<close> when they leave their loop.
\<close>

fun runRoutine ::
  "routine \<Rightarrow> bool \<Rightarrow> (string option \<times> routine) list \<Rightarrow> workflowState \<Rightarrow>
   (routine, workflowState) turn" where
  "runRoutine Finish kept sp m = \<lparr>spawned = sp, flag = kept, ending = Exits None, memory = m\<rparr>"
| "runRoutine (PanicWith e) kept sp m =
     \<lparr>spawned = sp, flag = kept, ending = Exits (Some e), memory = m\<rparr>"
| "runRoutine (GoThen f rest) kept sp m = runRoutine rest kept (sp @ [(None, f)]) m"
| "runRoutine (ReceiveThen c rest) kept sp m =
     (case Receive decodesAll c Pointer (heap m) of
        (Returned r, w1) \<Rightarrow>
          runRoutine rest kept sp (m\<lparr>heap := w1, observed := observed m @ [snd r]\<rparr>)
      | (Yielded k, w1) \<Rightarrow>
          \<lparr>spawned = sp, flag = kept, ending = Yields (InReceive k rest), memory = m\<lparr>heap := w1\<rparr>\<rparr>
      | (Panicked e, w1) \<Rightarrow>
          \<lparr>spawned = sp, flag = kept, ending = Exits (Some e), memory = m\<lparr>heap := w1\<rparr>\<rparr>)"
| "runRoutine (InReceive k rest) kept sp m =
     (case Receive_loop decodesAll k Pointer (heap m) of
        (Returned r, w1) \<Rightarrow>
          runRoutine rest False sp (m\<lparr>heap := w1, observed := observed m @ [snd r]\<rparr>)
      | (Yielded k', w1) \<Rightarrow>
          \<lparr>spawned = sp, flag = kept, ending = Yields (InReceive k rest), memory = m\<lparr>heap := w1\<rparr>\<rparr>
      | (Panicked e, w1) \<Rightarrow>
          \<lparr>spawned = sp, flag = kept, ending = Exits (Some e), memory = m\<lparr>heap := w1\<rparr>\<rparr>)"
| "runRoutine (SelectThen s rest) kept sp m =
     (case Select s (heap m) of
        (Returned b, w1) \<Rightarrow> runRoutine rest kept sp (m\<lparr>heap := w1\<rparr>)
      | (Yielded k, w1) \<Rightarrow>
          \<lparr>spawned = sp, flag = kept, ending = Yields (InSelect k rest), memory = m\<lparr>heap := w1\<rparr>\<rparr>
      | (Panicked e, w1) \<Rightarrow>
          \<lparr>spawned = sp, flag = kept, ending = Exits (Some e), memory = m\<lparr>heap := w1\<rparr>\<rparr>)"
| "runRoutine (InSelect k rest) kept sp m =
     (case Select_loop k (heap m) of
        (Returned b, w1) \<Rightarrow> runRoutine rest False sp (m\<lparr>heap := w1\<rparr>)
      | (Yielded k', w1) \<Rightarrow>
          \<lparr>spawned = sp, flag = kept, ending = Yields (InSelect k rest), memory = m\<lparr>heap := w1\<rparr>\<rparr>
      | (Panicked e, w1) \<Rightarrow>
          \<lparr>spawned = sp, flag = kept, ending = Exits (Some e), memory = m\<lparr>heap := w1\<rparr>\<rparr>)"

text \<open>
  What \<^verbatim>\<open>call\<close> sets going: a coroutine that was parked comes back from \<^verbatim>\<open>yield\<close> with
  \<^verbatim>\<open>keptBlocked\<close> set, a new one starts with the flag clear.
\<close>

fun parked :: "routine \<Rightarrow> bool" where
  "parked (InReceive k rest) = True"
| "parked (InSelect k rest) = True"
| "parked g = False"

definition resumeRoutine :: "routine \<Rightarrow> workflowState \<Rightarrow> (routine, workflowState) turn option" where
  "resumeRoutine g m = Some (runRoutine g (parked g) [] m)"

text \<open>
  The example. The workflow has the signal channels \<^verbatim>\<open>stop\<close> (channel 0) and \<^verbatim>\<open>data\<close>
  (channel 1) and a selector (0) with one receive case, on \<^verbatim>\<open>data\<close>, whose function
  receives from the channel. Its root function starts a coroutine and receives from
  \<^verbatim>\<open>stop\<close>, then panics; the coroutine calls \<^verbatim>\<open>Select\<close> and then receives once more from
  \<^verbatim>\<open>data\<close>.
\<close>

definition listener :: routine where
  "listener = SelectThen 0 (ReceiveThen 1 (ReceiveThen 1 Finish))"

definition rootFunction :: routine where
  "rootFunction = GoThen listener (ReceiveThen 0 (PanicWith ''stopped''))"

definition startMemory :: workflowState where
  "startMemory =
     (let m1 = snd (getSignalChannel ''stop''
                  \<lparr>heap = emptyWorld, signalChannels = [], resultPointer = None, observed = []\<rparr>);
          m2 = snd (getSignalChannel ''data'' m1)
      in m2\<lparr>heap := AddReceive 0 1 (snd (NewSelector 1 (heap m2)))\<rparr>)"

definition started :: "routine dispatcherImpl \<times> workflowState" where
  "started =
     (newCoroutine rootFunction
        \<lparr>sequence = 0, channelSequence = 0, selectorSequence = 0, coroutines = [],
         executing = False, closed = False\<rparr>,
      startMemory)"

text \<open>
  A decision task runs \<^verbatim>\<open>executeDispatcher\<close>, here with the entries of the map ranged
  over in the order in which they were made: the dispatcher and the state it leaves
  (the ones it started from, should it not return).
\<close>

definition decisionTask ::
  "routine dispatcherImpl \<times> workflowState \<Rightarrow> routine dispatcherImpl \<times> workflowState" where
  "decisionTask dm =
     (case executeDispatcher resumeRoutine (\<lambda>es. es) dm of
        Some (Inr (calls, dm')) \<Rightarrow> dm'
      | _ \<Rightarrow> dm)"

text \<open>
  The first decision task; then the signals arrive, two on \<^verbatim>\<open>data\<close> and one on \<^verbatim>\<open>stop\<close>;
  then the second decision task, in which the root function panics, and the third.
\<close>

definition afterFirstTask :: "routine dispatcherImpl \<times> workflowState" where
  "afterFirstTask = decisionTask started"

definition signalled :: "routine dispatcherImpl \<times> workflowState" where
  "signalled =
     (fst afterFirstTask,
      snd (signalHandler ''stop'' [0]
        (snd (signalHandler ''data'' [2]
          (snd (signalHandler ''data'' [1] (snd afterFirstTask)))))))"

definition afterPanic :: "routine dispatcherImpl \<times> workflowState" where
  "afterPanic = decisionTask signalled"

definition afterThirdTask :: "routine dispatcherImpl \<times> workflowState" where
  "afterThirdTask = decisionTask afterPanic"

text \<open>
  For comparison, the second run of the dispatcher alone, without what
  \<^verbatim>\<open>executeDispatcher\<close> does after it, followed by the third decision task.
\<close>

definition pumped :: "routine dispatcherImpl \<times> workflowState" where
  "pumped =
     (case ExecuteUntilAllBlocked resumeRoutine signalled of
        Some (Inr (pe, dm')) \<Rightarrow> dm'
      | _ \<Rightarrow> signalled)"

definition afterThirdTaskUnchecked :: "routine dispatcherImpl \<times> workflowState" where
  "afterThirdTaskUnchecked = decisionTask pumped"

section \<open>Activities and child workflows\<close>

text \<open>
  The first argument of \<^verbatim>\<open>ExecuteChildWorkflow\<close>, a value of type \<^verbatim>\<open>interface{}\<close>, by what
  \<^verbatim>\<open>reflect.TypeOf\<close> finds: nothing (the nil interface value), a string, a function
  (known by the name that \<^verbatim>\<open>getFunctionName\<close> gives it), or a value of another kind
  (known by how \<^verbatim>\<open>%v\<close> prints it).
\<close>

datatype funcValue = NoValue | StringValue string | FuncValue string | OtherValue string

text \<open>
  \<^verbatim>\<open>getValidatedWorkerFunction\<close>. \<^verbatim>\<open>validateFunctionArgs\<close> and \<^verbatim>\<open>encodeArgs\<close> of the host
  environment live outside these files and are parameters: the error of checking the
  arguments against the function, if any, and the encoded arguments or the error of
  encoding them. For the nil interface value \<^verbatim>\<open>reflect.TypeOf\<close> returns nil, and the call
  of \<^verbatim>\<open>Kind\<close> on it is a nil dereference. The result is the name of the workflow type
  and the input, or the error.
\<close>

definition getValidatedWorkerFunction ::
  "(funcValue \<Rightarrow> 'a list \<Rightarrow> error option) \<Rightarrow> ('a list \<Rightarrow> error + nat list) \<Rightarrow>
   funcValue \<Rightarrow> 'a list \<Rightarrow> (error + string \<times> nat list) blocking" where
  "getValidatedWorkerFunction validateFunctionArgs encodeArgs workflowFunc args =
     (let encoded = (\<lambda>fnName.
            case encodeArgs args of
              Inl e \<Rightarrow> Returned (Inl e)
            | Inr bytes \<Rightarrow> Returned (Inr (fnName, bytes)))
      in case workflowFunc of
           NoValue \<Rightarrow> Panicked nilDereference
         | StringValue s \<Rightarrow> encoded s
         | FuncValue fnName \<Rightarrow>
             (case validateFunctionArgs workflowFunc args of
                Some e \<Rightarrow> Returned (Inl e)
              | None \<Rightarrow> encoded fnName)
         | OtherValue shown \<Rightarrow>
             Returned (Inl (Error
               (''Invalid type 'workflowFunc' parameter provided, it can be either worker function or name of the worker type: ''
                @ shown))))"

text \<open>
  \<^verbatim>\<open>workflowOptions\<close>, without the map \<^verbatim>\<open>signalChannels\<close> (kept in \<open>workflowState\<close>) and
  without \<^verbatim>\<open>childPolicy\<close> and \<^verbatim>\<open>waitForCancellation\<close>, which no function here reads. A
  pointer field is \<open>None\<close> when nil; Go's \<^verbatim>\<open>int32\<close> is \<open>int\<close>, as the values are only
  compared. Of \<^verbatim>\<open>WorkflowInfo\<close> the two fields that are read.
\<close>

record workflowOptions =
  workflowType :: "string option"
  inputBytes :: "nat list"
  taskListName :: "string option"
  executionStartToCloseTimeoutSeconds :: "int option"
  taskStartToCloseTimeoutSeconds :: "int option"
  domainName :: "string option"
  workflowID :: string

record workflowInfo =
  infoDomain :: string
  infoTaskListName :: string

definition errWorkflowOptionBadRequest :: error where
  "errWorkflowOptionBadRequest =
     Error ''missing workflow options through context, check WorkflowOptions''"

text \<open>What the code asks of the environment in these functions.\<close>

datatype envRequest =
    EnvExecuteActivity string string "nat list" nat
  | EnvRequestCancelActivity string
  | EnvExecuteChildWorkflow workflowOptions nat nat nat
  | EnvRequestCancelWorkflow string string string

text \<open>
  The coroutine that \<^verbatim>\<open>ExecuteActivity\<close> and \<^verbatim>\<open>ExecuteChildWorkflow\<close> start with \<^verbatim>\<open>Go\<close>, as the
  closure with what it has captured: the channel \<^verbatim>\<open>ctx.Done()\<close> (\<open>None\<close> when nil) and the
  activity ID, or the address of the variable \<^verbatim>\<open>childWorkflowExecution\<close>; and where the
  coroutine stands: not yet run, parked in the \<^verbatim>\<open>Receive\<close> with frame \<open>k\<close>, or ended.
\<close>

datatype watching = WatchActivity "nat option" string | WatchChild "nat option" nat

datatype parking = NotStarted | ParkedAt nat | Ended

text \<open>
  What a workflow has besides its dispatcher, as far as these functions go: the
  memory; \<^verbatim>\<open>channelSequence\<close> of the dispatcher; what \<^verbatim>\<open>getWorkflowEnvOptions(ctx)\<close> gives
  (\<open>None\<close> for nil); the calls to the environment so far; the variables
  \<^verbatim>\<open>childWorkflowExecution\<close> of the calls of \<^verbatim>\<open>ExecuteChildWorkflow\<close> so far, each
  \<open>None\<close> while nil and then the ID and the RunID, found by their address, with the next
  free address \<open>cellCount\<close>; and the coroutines started for them.
  \<open>ctxErrs\<close> holds what \<^verbatim>\<open>ctx.Err()\<close> returns for the context with a given \<^verbatim>\<open>Done\<close> channel.
\<close>

record session =
  store :: world
  channelSeq :: int
  envOptions :: "workflowOptions option"
  requests :: "envRequest list"
  executions :: "nat \<Rightarrow> (string \<times> string) option"
  cellCount :: nat
  watchers :: "(watching \<times> parking) list"
  ctxErrs :: "nat \<Rightarrow> error option"

text \<open>
  Modelled from the spec: the context, whose code is not in these files. A cancel-aware
  context exposes a \<^verbatim>\<open>done()\<close> channel that closes on cancel and an \<^verbatim>\<open>err()\<close> sentinel;
  \<^verbatim>\<open>cancel(ctx)\<close> closes the context's \<^verbatim>\<open>done\<close> channel, which closes exactly once, and
  \<^verbatim>\<open>ErrCanceled\<close> is the sentinel returned by \<^verbatim>\<open>err()\<close> after it. Of a context the model
  keeps the \<^verbatim>\<open>done\<close> channel, \<open>None\<close> for a context that cannot be cancelled.
\<close>

record ctx =
  ctxDone :: "nat option"

definition Err :: "nat option \<Rightarrow> session \<Rightarrow> error option" where
  "Err d st = (case d of None \<Rightarrow> None | Some c \<Rightarrow> ctxErrs st c)"

definition cancel :: "ctx \<Rightarrow> session \<Rightarrow> session" where
  "cancel c st =
     (case ctxDone c of
        None \<Rightarrow> st
      | Some ch \<Rightarrow>
          if ctxErrs st ch \<noteq> None then st
          else st\<lparr>store := Close ch (store st), ctxErrs := (ctxErrs st)(ch := Some ErrCanceled)\<rparr>)"

text \<open>
  \<^verbatim>\<open>getValidatedWorkflowOptions\<close>, with the \<^verbatim>\<open>WorkflowInfo\<close> of the environment as \<open>info\<close>. It
  writes the defaults through the pointer before it returns, also when it returns an
  error.
\<close>

definition getValidatedWorkflowOptions ::
  "workflowInfo \<Rightarrow> session \<Rightarrow> (error + workflowOptions) \<times> session" where
  "getValidatedWorkflowOptions info st =
     (case envOptions st of
        None \<Rightarrow> (Inl errWorkflowOptionBadRequest, st)
      | Some p \<Rightarrow>
          (let p1 = (if domainName p = None \<or> domainName p = Some []
                     then p\<lparr>domainName := Some (infoDomain info)\<rparr> else p);
               p2 = (if taskListName p1 = None \<or> taskListName p1 = Some []
                     then p1\<lparr>taskListName := Some (infoTaskListName info)\<rparr> else p1)
           in case taskStartToCloseTimeoutSeconds p2 of
                None \<Rightarrow>
                  (Inl (Error ''missing or negative StartToCloseTimeoutSeconds''),
                   st\<lparr>envOptions := Some p2\<rparr>)
              | Some t \<Rightarrow>
                  if t < 0
                  then (Inl (Error ''missing or negative StartToCloseTimeoutSeconds''),
                        st\<lparr>envOptions := Some p2\<rparr>)
                  else
                    (let p3 = (if t = 0 then p2\<lparr>taskStartToCloseTimeoutSeconds := Some 10\<rparr> else p2)
                     in case executionStartToCloseTimeoutSeconds p3 of
                          None \<Rightarrow>
                            (Inl (Error ''missing or invalid ExecutionStartToCloseTimeoutSeconds''),
                             st\<lparr>envOptions := Some p3\<rparr>)
                        | Some x \<Rightarrow>
                            if x \<le> 0
                            then (Inl (Error ''missing or invalid ExecutionStartToCloseTimeoutSeconds''),
                                  st\<lparr>envOptions := Some p3\<rparr>)
                            else (Inr p3, st\<lparr>envOptions := Some p3\<rparr>))))"

text \<open>\<^verbatim>\<open>newDecodeFuture\<close> and \<^verbatim>\<open>NewFuture\<close> for a workflow: \<^verbatim>\<open>NewChannel\<close> counts up \<^verbatim>\<open>channelSequence\<close>.\<close>

definition newFuture :: "session \<Rightarrow> nat \<times> session" where
  "newFuture st =
     (case NewFuture (channelSeq st + 1) (store st) of
        (f, w) \<Rightarrow> (f, st\<lparr>store := w, channelSeq := channelSeq st + 1\<rparr>))"

text \<open>
  \<^verbatim>\<open>settable.Set(nil, err)\<close> followed by \<^verbatim>\<open>return future\<close>, the way both functions end when a
  validation fails.
\<close>

definition failed :: "'r \<Rightarrow> nat \<Rightarrow> error \<Rightarrow> session \<Rightarrow> 'r blocking \<times> session" where
  "failed handle f e st =
     (case Set f Nil (Some e) (store st) of
        (Returned u, w) \<Rightarrow> (Returned handle, st\<lparr>store := w\<rparr>)
      | (Yielded k, w) \<Rightarrow> (Yielded k, st\<lparr>store := w\<rparr>)
      | (Panicked msg, w) \<Rightarrow> (Panicked msg, st\<lparr>store := w\<rparr>))"

text \<open>
  \<^verbatim>\<open>ExecuteChildWorkflow\<close>. The result is the pair of the main future and the execution
  future. The two callbacks it hands to the environment are named in the request by
  what they have captured: the main future, the execution future and the address of
  \<^verbatim>\<open>childWorkflowExecution\<close>.
\<close>

definition ExecuteChildWorkflow ::
  "(funcValue \<Rightarrow> 'a list \<Rightarrow> error option) \<Rightarrow> ('a list \<Rightarrow> error + nat list) \<Rightarrow> workflowInfo \<Rightarrow>
   ctx \<Rightarrow> funcValue \<Rightarrow> 'a list \<Rightarrow> session \<Rightarrow> (nat \<times> nat) blocking \<times> session" where
  "ExecuteChildWorkflow validateFunctionArgs encodeArgs info c f args st =
     (case newFuture st of
        (mainFuture, st1) \<Rightarrow>
          (case newFuture st1 of
             (executionFuture, st2) \<Rightarrow>
               (case getValidatedWorkerFunction validateFunctionArgs encodeArgs f args of
                  Panicked msg \<Rightarrow> (Panicked msg, st2)
                | Yielded k \<Rightarrow> (Yielded k, st2)
                | Returned (Inl e) \<Rightarrow> failed (mainFuture, executionFuture) mainFuture e st2
                | Returned (Inr (wfType, bytes)) \<Rightarrow>
                    (case getValidatedWorkflowOptions info st2 of
                       (Inl e, st3) \<Rightarrow> failed (mainFuture, executionFuture) mainFuture e st3
                     | (Inr options, st3) \<Rightarrow>
                         (let options' = options\<lparr>inputBytes := bytes, workflowType := Some wfType\<rparr>;
                              cell = cellCount st3
                          in (Returned (mainFuture, executionFuture),
                              st3\<lparr>envOptions := Some options',
                                  executions := (executions st3)(cell := None),
                                  cellCount := cell + 1,
                                  requests := requests st3 @
                                    [EnvExecuteChildWorkflow options' mainFuture executionFuture cell],
                                  watchers := watchers st3 @
                                    [(WatchChild (ctxDone c) cell, NotStarted)]\<rparr>))))))"

text \<open>
  \<^verbatim>\<open>ExecuteActivity\<close>. \<^verbatim>\<open>getValidatedActivityFunction\<close> and \<^verbatim>\<open>getValidatedActivityOptions\<close> live
  outside these files: what they return is given, as the error or the activity type
  with the input, and the error or the parameters (known by a name). \<open>activityID\<close> is
  the ID in what the environment returns.
\<close>

definition ExecuteActivity ::
  "(error + string \<times> nat list) \<Rightarrow> (error + string) \<Rightarrow> string \<Rightarrow> ctx \<Rightarrow> session \<Rightarrow>
   nat blocking \<times> session" where
  "ExecuteActivity validatedFunction validatedOptions activityID c st =
     (case newFuture st of
        (fut, st1) \<Rightarrow>
          (case validatedFunction of
             Inl e \<Rightarrow> failed fut fut e st1
           | Inr (activityType, bytes) \<Rightarrow>
               (case validatedOptions of
                  Inl e \<Rightarrow> failed fut fut e st1
                | Inr parameters \<Rightarrow>
                    (Returned fut,
                     st1\<lparr>requests := requests st1 @
                           [EnvExecuteActivity parameters activityType bytes fut],
                         watchers := watchers st1 @
                           [(WatchActivity (ctxDone c) activityID, NotStarted)]\<rparr>))))"

text \<open>
  The callbacks of \<^verbatim>\<open>ExecuteChildWorkflow\<close>, called by the environment: the one for the
  result, and the one for the start of the child, with the variable at \<open>cell\<close> and the
  execution future that it has captured.
\<close>

definition resultCallback :: "nat \<Rightarrow> nat list \<Rightarrow> error option \<Rightarrow> session \<Rightarrow> unit blocking \<times> session" where
  "resultCallback mainFuture r e st =
     (case Set mainFuture (Bytes r) e (store st) of (res, w) \<Rightarrow> (res, st\<lparr>store := w\<rparr>))"

definition startedCallback ::
  "nat \<Rightarrow> nat \<Rightarrow> string \<times> string \<Rightarrow> error option \<Rightarrow> session \<Rightarrow> unit blocking \<times> session" where
  "startedCallback cell executionFuture r e st =
     (let st1 = (if e = None then st\<lparr>executions := (executions st)(cell := Some r)\<rparr> else st)
      in case Set executionFuture (Execution (fst r) (snd r)) e (store st1) of
           (res, w) \<Rightarrow> (res, st1\<lparr>store := w\<rparr>))"

text \<open>
  The code of the coroutine after \<^verbatim>\<open>ctx.Done().Receive(ctx, nil)\<close> has returned: the test
  of \<^verbatim>\<open>ctx.Err()\<close> and, for a child workflow, of \<^verbatim>\<open>childWorkflowExecution\<close>, and the call to
  the environment. \<^verbatim>\<open>*options.domain\<close> is read through the pointer it has captured.
\<close>

definition afterDone :: "watching \<Rightarrow> session \<Rightarrow> unit blocking \<times> session" where
  "afterDone wt st =
     (case wt of
        WatchActivity d activityID \<Rightarrow>
          if Err d st = Some ErrCanceled
          then (Returned (), st\<lparr>requests := requests st @ [EnvRequestCancelActivity activityID]\<rparr>)
          else (Returned (), st)
      | WatchChild d cell \<Rightarrow>
          if Err d st = Some ErrCanceled then
            (case executions st cell of
               None \<Rightarrow> (Returned (), st)
             | Some x \<Rightarrow>
                 (case envOptions st of
                    None \<Rightarrow> (Panicked nilDereference, st)
                  | Some options \<Rightarrow>
                      (case domainName options of
                         None \<Rightarrow> (Panicked nilDereference, st)
                       | Some dn \<Rightarrow>
                           (Returned (),
                            st\<lparr>requests := requests st @
                                  [EnvRequestCancelWorkflow dn (fst x) (snd x)]\<rparr>))))
          else (Returned (), st))"

text \<open>
  One call of the coroutine at position \<open>i\<close> by the dispatcher: from its start, or from
  where it is parked, up to its next yield or its end.
\<close>

definition doneOf :: "watching \<Rightarrow> nat option" where
  "doneOf wt = (case wt of WatchActivity d a \<Rightarrow> d | WatchChild d cell \<Rightarrow> d)"

definition setParking :: "nat \<Rightarrow> parking \<Rightarrow> session \<Rightarrow> session" where
  "setParking i p st = st\<lparr>watchers := (watchers st)[i := (fst (watchers st ! i), p)]\<rparr>"

definition received ::
  "nat \<Rightarrow> watching \<Rightarrow> (bool \<times> stored) blocking \<times> world \<Rightarrow> session \<Rightarrow> session" where
  "received i wt rw st =
     (case rw of
        (Returned r, w) \<Rightarrow> setParking i Ended (snd (afterDone wt (st\<lparr>store := w\<rparr>)))
      | (Yielded k, w) \<Rightarrow> setParking i (ParkedAt k) (st\<lparr>store := w\<rparr>)
      | (Panicked msg, w) \<Rightarrow> setParking i Ended (st\<lparr>store := w\<rparr>))"

definition runWatcher :: "nat \<Rightarrow> session \<Rightarrow> session" where
  "runWatcher i st =
     (if length (watchers st) \<le> i then st
      else
        (case watchers st ! i of
           (wt, Ended) \<Rightarrow> st
         | (wt, NotStarted) \<Rightarrow>
             (case doneOf wt of
                None \<Rightarrow> setParking i Ended st
              | Some ch \<Rightarrow> received i wt (Receive decodesAll ch NilDest (store st)) st)
         | (wt, ParkedAt k) \<Rightarrow> received i wt (Receive_loop decodesAll k NilDest (store st)) st))"

text \<open>
  What happens to a workflow, one after the other: its code calls
  \<^verbatim>\<open>ExecuteChildWorkflow\<close>; the environment calls the started callback or the result
  callback that it was handed in its request number \<open>j\<close>; a context is cancelled; the
  dispatcher calls the coroutine at position \<open>i\<close>.
\<close>

datatype 'a event =
    CallChild ctx funcValue "'a list"
  | Started nat "string \<times> string" "error option"
  | Completed nat "nat list" "error option"
  | Cancel ctx
  | Resume nat

definition deliver ::
  "(funcValue \<Rightarrow> 'a list \<Rightarrow> error option) \<Rightarrow> ('a list \<Rightarrow> error + nat list) \<Rightarrow> workflowInfo \<Rightarrow>
   'a event \<Rightarrow> session \<Rightarrow> session" where
  "deliver validateFunctionArgs encodeArgs info ev st =
     (case ev of
        CallChild c f args \<Rightarrow> snd (ExecuteChildWorkflow validateFunctionArgs encodeArgs info c f args st)
      | Started j r e \<Rightarrow>
          (if j < length (requests st) then
             (case requests st ! j of
                EnvExecuteChildWorkflow options mainFuture executionFuture cell \<Rightarrow>
                  snd (startedCallback cell executionFuture r e st)
              | _ \<Rightarrow> st)
           else st)
      | Completed j r e \<Rightarrow>
          (if j < length (requests st) then
             (case requests st ! j of
                EnvExecuteChildWorkflow options mainFuture executionFuture cell \<Rightarrow>
                  snd (resultCallback mainFuture r e st)
              | _ \<Rightarrow> st)
           else st)
      | Cancel c \<Rightarrow> cancel c st
      | Resume i \<Rightarrow> runWatcher i st)"

definition happen ::
  "(funcValue \<Rightarrow> 'a list \<Rightarrow> error option) \<Rightarrow> ('a list \<Rightarrow> error + nat list) \<Rightarrow> workflowInfo \<Rightarrow>
   'a event list \<Rightarrow> session \<Rightarrow> session" where
  "happen validateFunctionArgs encodeArgs info evs st =
     fold (deliver validateFunctionArgs encodeArgs info) evs st"

text \<open>The executions that the started callbacks have delivered in a run of events.\<close>

definition delivered :: "'a event list \<Rightarrow> (string \<times> string) set" where
  "delivered evs = {r. \<exists>j. Started j r None \<in> set evs}"

text \<open>
  Examples. A workflow at its start with valid options and a context that can be
  cancelled, whose \<^verbatim>\<open>Done\<close> channel is channel 0; functions and arguments that pass
  every check; and the events of a child workflow.
\<close>

definition validOptions :: workflowOptions where
  "validOptions =
     \<lparr>workflowType = None, inputBytes = [], taskListName = Some ''tasks'',
      executionStartToCloseTimeoutSeconds = Some 60, taskStartToCloseTimeoutSeconds = Some 10,
      domainName = Some ''domain'', workflowID = []\<rparr>"

definition fresh :: session where
  "fresh =
     \<lparr>store = snd (NewChannel 1 emptyWorld), channelSeq = 1, envOptions = Some validOptions,
      requests = [], executions = (\<lambda>cell. None), cellCount = 0, watchers = [],
      ctxErrs = (\<lambda>c. None)\<rparr>"

definition cancellable :: ctx where
  "cancellable = \<lparr>ctxDone = Some 0\<rparr>"

definition theInfo :: workflowInfo where
  "theInfo = \<lparr>infoDomain = ''domain'', infoTaskListName = ''tasks''\<rparr>"

definition accepts :: "funcValue \<Rightarrow> nat list \<Rightarrow> error option" where
  "accepts f args = None"

definition encodes :: "nat list \<Rightarrow> error + nat list" where
  "encodes args = Inr args"

text \<open>
  A child workflow is started from a function that passes the checks. In
  \<open>startThenCancel\<close> the environment reports its start, then the context is cancelled
  and the dispatcher runs the coroutine. In \<open>cancelThenResume\<close> the context is cancelled
  and the coroutine runs before the start is reported, and once more after it. In
  \<open>cancelThenStart\<close> the coroutine is parked, the context is cancelled, the start is
  reported, and then the dispatcher runs the coroutine.
\<close>

definition startThenCancel :: "nat event list" where
  "startThenCancel =
     [CallChild cancellable (FuncValue ''child'') [], Started 0 (''id'', ''run'') None,
      Cancel cancellable, Resume 0]"

definition cancelThenResume :: "nat event list" where
  "cancelThenResume =
     [CallChild cancellable (FuncValue ''child'') [], Cancel cancellable, Resume 0,
      Started 0 (''id'', ''run'') None, Resume 0]"

definition cancelThenStart :: "nat event list" where
  "cancelThenStart =
     [CallChild cancellable (FuncValue ''child'') [], Resume 0, Cancel cancellable,
      Started 0 (''id'', ''run'') None, Resume 0]"

section \<open>The test environment: choosing and firing the next timer\<close>

text \<open>
  \<^verbatim>\<open>testTimerHandle\<close> of the test environment. Times (\<^verbatim>\<open>time.Time\<close>) and durations
  (\<^verbatim>\<open>time.Duration\<close>) are integers (nanoseconds); \<^verbatim>\<open>Before\<close> is \<open><\<close>, \<^verbatim>\<open>Equal\<close> is
  \<open>=\<close>, \<^verbatim>\<open>Sub\<close> is \<open>-\<close> and \<^verbatim>\<open>Add\<close> is \<open>+\<close> (the saturation of \<^verbatim>\<open>Sub\<close> at the ends
  of int64 is outside the model). The fields \<^verbatim>\<open>callback\<close> and \<^verbatim>\<open>timer\<close> are not read by
  the functions below and are left out. \<^verbatim>\<open>wallTimer\<close> is a pointer to a timer of the real
  clock: \<open>None\<close> is nil, \<open>Some r\<close> points to entry \<open>r\<close> of \<open>wallTimers\<close> below.
\<close>

record testTimerHandle =
  duration :: int
  mockTimeToFire :: int
  wallTimeToFire :: int
  timerID :: int
  wallTimer :: "nat option"

text \<open>
  A timer of the real clock made by \<^verbatim>\<open>env.wallClock.AfterFunc(d, f)\<close>: after \<open>fireAfter\<close>
  it posts the callback that fires the timer \<open>target\<close> if that timer still exists;
  \<^verbatim>\<open>Stop\<close> sets \<open>stopped\<close>.
\<close>

record wallTimerObj =
  fireAfter :: int
  target :: int
  stopped :: bool

text \<open>
  The fields of \<^verbatim>\<open>testWorkflowEnvironmentImpl\<close> that the main loop and
  \<^verbatim>\<open>autoFireNextTimer\<close> use. \<open>timers\<close> is the Go map \<^verbatim>\<open>map[string]*testTimerHandle\<close>, given
  as the list of its values in the order in which the \<^verbatim>\<open>range\<close> loop visits them: Go
  leaves that order open, so every property below is proved for every list. \<open>mockClock\<close>
  and \<open>wallClock\<close> are the current times of the two clocks, \<open>mockAdds\<close> lists the
  durations passed to \<^verbatim>\<open>env.mockClock.Add\<close>, \<open>callbackChannel\<close> holds the queued callbacks
  (of any type \<open>'c\<close>).
\<close>

record 'c testWorkflowEnvironmentImpl =
  timers :: "testTimerHandle list"
  mockClock :: int
  wallClock :: int
  runningCount :: int
  wallTimers :: "wallTimerObj list"
  mockAdds :: "int list"
  callbackChannel :: "'c list"
  isTestCompleted :: bool

text \<open>
  The condition under which the loop \<^verbatim>\<open>for _, t := range env.timers\<close> replaces
  \<^verbatim>\<open>nextTimer\<close> by \<open>t\<close>.
\<close>

definition replaces :: "testTimerHandle \<Rightarrow> testTimerHandle \<Rightarrow> bool" where
  "replaces t nextTimer \<longleftrightarrow>
     mockTimeToFire t < mockTimeToFire nextTimer \<or>
     (mockTimeToFire t = mockTimeToFire nextTimer \<and> timerID t < timerID nextTimer)"

text \<open>
  One turn of that loop: \<open>nextTimer\<close> is a position in the list (\<open>None\<close> is nil), \<open>i\<close> the
  position visited.
\<close>

definition visit :: "testTimerHandle list \<Rightarrow> nat \<Rightarrow> nat option \<Rightarrow> nat option" where
  "visit ts i nextTimer =
     (case nextTimer of
        None \<Rightarrow> Some i
      | Some n \<Rightarrow> if replaces (ts ! i) (ts ! n) then Some i else Some n)"

definition findNextTimer :: "testTimerHandle list \<Rightarrow> nat option" where
  "findNextTimer ts = fold (visit ts) [0..<length ts] None"

text \<open>
  The closure \<^verbatim>\<open>fireTimer\<close>: it moves the mock clock forward by the time left to the
  timer (the logging is left out). What the mock clock then does with the timers that
  are due belongs to the clock library.
\<close>

definition fireTimer ::
  "testTimerHandle \<Rightarrow> 'c testWorkflowEnvironmentImpl \<Rightarrow> 'c testWorkflowEnvironmentImpl" where
  "fireTimer th env =
     (let skipDuration = mockTimeToFire th - mockClock env
      in env\<lparr>mockClock := mockClock env + skipDuration,
              mockAdds := mockAdds env @ [skipDuration]\<rparr>)"

text \<open>\<^verbatim>\<open>nextTimer.wallTimer.Stop()\<close> for a non-nil \<^verbatim>\<open>wallTimer\<close>.\<close>

definition stopWallTimer ::
  "nat \<Rightarrow> 'c testWorkflowEnvironmentImpl \<Rightarrow> 'c testWorkflowEnvironmentImpl" where
  "stopWallTimer r env =
     (if r < length (wallTimers env)
      then env\<lparr>wallTimers := (wallTimers env)[r := (wallTimers env ! r)\<lparr>stopped := True\<rparr>]\<rparr>
      else env)"

text \<open>
  \<^verbatim>\<open>autoFireNextTimer\<close>. The result is the returned bool and the environment after the
  call.
\<close>

definition autoFireNextTimer ::
  "'c testWorkflowEnvironmentImpl \<Rightarrow> bool \<times> 'c testWorkflowEnvironmentImpl" where
  "autoFireNextTimer env =
     (case findNextTimer (timers env) of
        None \<Rightarrow> (False, env)
      | Some n \<Rightarrow>
          let nextTimer = timers env ! n in
          if runningCount env = 0 then
            (let env1 = (case wallTimer nextTimer of
                           None \<Rightarrow> env
                         | Some r \<Rightarrow>
                             (stopWallTimer r env)
                               \<lparr>timers := (timers env)[n := nextTimer\<lparr>wallTimer := None\<rparr>]\<rparr>)
             in (True, fireTimer nextTimer env1))
          else
            (let durationToFire = mockTimeToFire nextTimer - mockClock env;
                 wallTimeToFire' = wallClock env + durationToFire
             in if wallTimer nextTimer \<noteq> None \<and> wallTimeToFire nextTimer < wallTimeToFire'
                then (False, env)
                else
                  (let env1 = (case wallTimer nextTimer of
                                 None \<Rightarrow> env
                               | Some r \<Rightarrow> stopWallTimer r env);
                       r' = length (wallTimers env1)
                   in (False,
                       env1\<lparr>wallTimers := wallTimers env1 @
                               [\<lparr>fireAfter = durationToFire, target = timerID nextTimer,
                                 stopped = False\<rparr>],
                             timers := (timers env)[n := nextTimer
                               \<lparr>wallTimeToFire := wallTimeToFire', wallTimer := Some r'\<rparr>]\<rparr>))))"

text \<open>
  One turn of the loop of \<^verbatim>\<open>startMainLoop\<close>, up to the point where it hands over to a
  callback or waits: what the turn does, and the environment it leaves.
\<close>

datatype 'c loopTurn =
    ProcessCallback 'c
  | TimerFired
  | LoopReturns
  | WaitForCallbackOrTimeout

definition mainLoopTurn ::
  "'c testWorkflowEnvironmentImpl \<Rightarrow> 'c loopTurn \<times> 'c testWorkflowEnvironmentImpl" where
  "mainLoopTurn env =
     (case callbackChannel env of
        c # rest \<Rightarrow> (ProcessCallback c, env\<lparr>callbackChannel := rest\<rparr>)
      | [] \<Rightarrow>
          (case autoFireNextTimer env of
             (True, env') \<Rightarrow> (TimerFired, env')
           | (False, env') \<Rightarrow>
               if isTestCompleted env' then (LoopReturns, env')
               else (WaitForCallbackOrTimeout, env')))"

text \<open>
  The order in which the timers are to fire: \<open>a\<close> is not later than \<open>b\<close> when it
  fires earlier on the mock clock, or at the same time with a \<^verbatim>\<open>timerID\<close> that is not
  larger.
\<close>

definition notLater :: "testTimerHandle \<Rightarrow> testTimerHandle \<Rightarrow> bool" where
  "notLater a b \<longleftrightarrow>
     mockTimeToFire a < mockTimeToFire b \<or>
     (mockTimeToFire a = mockTimeToFire b \<and> timerID a \<le> timerID b)"

text \<open>
  Three timers, visited with the latest first; the two that fire at time 10 differ in
  their \<^verbatim>\<open>timerID\<close>.
\<close>

definition twoTimers :: "unit testWorkflowEnvironmentImpl" where
  "twoTimers =
     \<lparr>timers =
        [\<lparr>duration = 30, mockTimeToFire = 30, wallTimeToFire = 30, timerID = 2, wallTimer = None\<rparr>,
         \<lparr>duration = 10, mockTimeToFire = 10, wallTimeToFire = 10, timerID = 1, wallTimer = None\<rparr>,
         \<lparr>duration = 10, mockTimeToFire = 10, wallTimeToFire = 10, timerID = 0, wallTimer = None\<rparr>],
      mockClock = 0, wallClock = 0, runningCount = 0, wallTimers = [], mockAdds = [],
      callbackChannel = [], isTestCompleted = False\<rparr>"

chapter \<open>Properties\<close>

section \<open>The dispatcher: when the pump returns\<close>

lemma fold_spawn:
  "sequence (fold spawn ss d) = sequence d + int (length ss) \<and>
   length (coroutines (fold spawn ss d)) = length (coroutines d) + length ss \<and>
   take (length (coroutines d)) (coroutines (fold spawn ss d)) = coroutines d \<and>
   (\<forall>c \<in> set (drop (length (coroutines d)) (coroutines (fold spawn ss d))).
      \<not> coroutineState.closed c \<and> \<not> keptBlocked c)"
proof (induction ss arbitrary: d)
  case Nil
  then show ?case by simp
next
  case (Cons s ss)
  let ?d = "spawn s d"
  have s: "sequence ?d = sequence d + 1"
    "\<exists>c. coroutines ?d = coroutines d @ [c] \<and> \<not> coroutineState.closed c \<and> \<not> keptBlocked c"
    by (auto simp: spawn_def newCoroutine_def newNamedCoroutine_def newState_def
        split: prod.split option.split)
  then obtain c where c: "coroutines ?d = coroutines d @ [c]" "\<not> coroutineState.closed c"
    "\<not> keptBlocked c" by blast
  from Cons.IH [of ?d] have ih:
    "sequence (fold spawn ss ?d) = sequence ?d + int (length ss)"
    "length (coroutines (fold spawn ss ?d)) = length (coroutines ?d) + length ss"
    "take (length (coroutines ?d)) (coroutines (fold spawn ss ?d)) = coroutines ?d"
    "\<forall>c \<in> set (drop (length (coroutines ?d)) (coroutines (fold spawn ss ?d))).
      \<not> coroutineState.closed c \<and> \<not> keptBlocked c"
    by simp_all
  let ?l = "coroutines (fold spawn ss ?d)"
  have len: "length (coroutines ?d) = Suc (length (coroutines d))" by (simp add: c)
  have t3: "take (Suc (length (coroutines d))) ?l = coroutines d @ [c]"
    using ih(3) by (simp add: c)
  have t: "take (length (coroutines d)) ?l = coroutines d"
  proof -
    have "take (length (coroutines d)) ?l =
        take (length (coroutines d)) (take (Suc (length (coroutines d))) ?l)"
      by (simp add: min_def)
    also have "\<dots> = coroutines d" by (simp only: t3) simp
    finally show ?thesis .
  qed
  have dr: "drop (length (coroutines d)) ?l = c # drop (Suc (length (coroutines d))) ?l"
  proof -
    have "?l = take (Suc (length (coroutines d))) ?l @ drop (Suc (length (coroutines d))) ?l"
      by simp
    then have "?l = (coroutines d @ [c]) @ drop (Suc (length (coroutines d))) ?l"
      by (simp only: t3)
    then have "drop (length (coroutines d)) ?l =
        drop (length (coroutines d))
          (coroutines d @ c # drop (Suc (length (coroutines d))) ?l)"
      by simp
    then show ?thesis by simp
  qed
  have ih4: "\<forall>c \<in> set (drop (Suc (length (coroutines d))) ?l).
      \<not> coroutineState.closed c \<and> \<not> keptBlocked c"
    using ih(4) by (simp add: c)
  show ?case using s(1) ih(1,2) ih4 t dr c(2,3) len by simp
qed

lemma call_effect:
  assumes c: "call R i (d, w) = Some (d1, w1)" and i: "i < length (coroutines d)"
  shows "sequence d \<le> sequence d1"
    and "length (coroutines d1) = length (coroutines d) + nat (sequence d1 - sequence d)"
    and "take i (coroutines d1) = take i (coroutines d)"
proof -
  from c obtain t where t: "R (goroutine (coroutines d ! i)) w = Some t"
    by (auto simp: call_def split: option.splits)
  let ?d = "fold spawn (spawned t) d"
  from c t obtain c' where d1: "d1 = ?d\<lparr>coroutines := (coroutines ?d)[i := c']\<rparr>"
    by (auto simp: call_def Let_def)
  from fold_spawn [of "spawned t" d] have f:
    "sequence ?d = sequence d + int (length (spawned t))"
    "length (coroutines ?d) = length (coroutines d) + length (spawned t)"
    "take (length (coroutines d)) (coroutines ?d) = coroutines d"
    by simp_all
  show "sequence d \<le> sequence d1" by (simp add: d1 f)
  show "length (coroutines d1) = length (coroutines d) + nat (sequence d1 - sequence d)"
    by (simp add: d1 f)
  have "take i (coroutines ?d) = take i (take (length (coroutines d)) (coroutines ?d))"
    using i by (simp add: min_def)
  then have "take i (coroutines ?d) = take i (coroutines d)" by (simp only: f(3))
  then show "take i (coroutines d1) = take i (coroutines d)" by (simp add: d1)
qed

lemma eachCoroutine_step:
  assumes IH: "\<And>R i ab dw y. each R i ab dw = Some y \<Longrightarrow> passInv i ab dw y"
    and body: "(if i < length (coroutines (fst dw)) then
        (case (if \<not> coroutineState.closed (coroutines (fst dw) ! i) then call R i dw
               else Some dw) of
           None \<Rightarrow> None
         | Some (d1, w1) \<Rightarrow>
             let c = coroutines d1 ! i in
             if coroutineState.closed c then
               (let d2 = d1\<lparr>coroutines := take i (coroutines d1) @ drop (i + 1) (coroutines d1)\<rparr>
                in case panicError c of
                     Some e \<Rightarrow> Some (Inl e, d2, w1)
                   | None \<Rightarrow> each R i False (d2, w1))
             else
               each R (i + 1)
                 (ab \<and> (keptBlocked c \<or> coroutineState.closed c)) (d1, w1))
      else Some (Inr ab, dw)) = Some y"
  shows "passInv i ab dw y"
proof -
  note 1 = IH body
  obtain d w where dw: "dw = (d, w)" by (cases dw)
  note eq = 1(2) [unfolded dw fst_conv]
  show ?thesis
  proof (cases "i < length (coroutines d)")
    case False
    with eq have "y = (Inr ab, d, w)" by simp
    with False dw show ?thesis by (simp add: passInv_def created_def finished_def)
  next
    case i: True
    from eq i obtain d1 w1 where
      c: "(if \<not> coroutineState.closed (coroutines d ! i) then call R i (d, w) else Some (d, w))
          = Some (d1, w1)"
      by (auto split: option.splits)
    have eff: "sequence d \<le> sequence d1"
      "length (coroutines d1) = length (coroutines d) + nat (sequence d1 - sequence d)"
      "take i (coroutines d1) = take i (coroutines d)"
      using c call_effect [of R i d w d1 w1, OF _ i] by (auto split: if_splits)
    then have i1: "i < length (coroutines d1)" using i by simp
    let ?c = "coroutines d1 ! i"
    show ?thesis
    proof (cases "coroutineState.closed ?c")
      case closed: True
      define d2 where
        "d2 = d1\<lparr>coroutines := take i (coroutines d1) @ drop (i + 1) (coroutines d1)\<rparr>"
      have len2: "Suc (length (coroutines d2)) = length (coroutines d1)"
        using i1 by (simp add: d2_def)
      have seq2: "sequence d2 = sequence d1" by (simp add: d2_def)
      have take2: "take i (coroutines d2) = take i (coroutines d)"
        using i i1 eff(3) by (simp add: d2_def)
      show ?thesis
      proof (cases "panicError ?c")
        case (Some e)
        with eq i c closed have "y = (Inl e, d2, w1)" by (simp add: Let_def d2_def)
        with eff len2 seq2 dw show ?thesis by (simp add: passInv_def created_def)
      next
        case None
        with eq i c closed have "each R i False (d2, w1) = Some y" by (simp add: Let_def d2_def)
        from 1(1) [OF this] have ih0: "passInv i False (d2, w1) y" .
        from ih0 have ih:
          "sequence d2 \<le> sequence (fst (snd y))"
          "length (coroutines (fst (snd y))) \<le>
             length (coroutines d2) + created d2 (fst (snd y))"
          "\<forall>ab'. fst y = Inr ab' \<longrightarrow>
             take i (coroutines (fst (snd y))) = take i (coroutines d2) \<and>
             (\<forall>c \<in> set (drop i (coroutines (fst (snd y)))). \<not> coroutineState.closed c) \<and>
             \<not> ab'"
          by (auto simp: passInv_def)
        have s: "sequence d \<le> sequence (fst (snd y))" using eff(1) ih(1) seq2 by simp
        have l: "length (coroutines (fst (snd y))) < length (coroutines d) + created d (fst (snd y))"
          using ih(1,2) eff(1,2) len2 seq2 by (simp add: created_def)
        then have nf: "finished d (fst (snd y)) \<noteq> 0" by (simp add: finished_def)
        from s l nf ih(3) take2 dw show ?thesis by (auto simp: passInv_def)
      qed
    next
      case live: False
      with eq i c have
        "each R (i + 1) (ab \<and> (keptBlocked ?c \<or> coroutineState.closed ?c)) (d1, w1) = Some y"
        by (simp add: Let_def)
      from 1(1) [OF this] have ih0:
        "passInv (i + 1) (ab \<and> (keptBlocked ?c \<or> coroutineState.closed ?c)) (d1, w1) y" .
      from ih0 live have ih:
        "sequence d1 \<le> sequence (fst (snd y))"
        "length (coroutines (fst (snd y))) \<le> length (coroutines d1) + created d1 (fst (snd y))"
        "\<forall>ab'. fst y = Inr ab' \<longrightarrow>
           take (Suc i) (coroutines (fst (snd y))) = take (Suc i) (coroutines d1) \<and>
           (\<forall>c \<in> set (drop (Suc i) (coroutines (fst (snd y)))). \<not> coroutineState.closed c) \<and>
           (ab' \<longleftrightarrow> (ab \<and> keptBlocked ?c) \<and>
              (\<forall>c \<in> set (drop (Suc i) (coroutines (fst (snd y)))). keptBlocked c) \<and>
              finished d1 (fst (snd y)) = 0)"
        by (auto simp: passInv_def)
      let ?f = "coroutines (fst (snd y))"
      have s: "sequence d \<le> sequence (fst (snd y))" using eff(1) ih(1) by simp
      have l: "length ?f \<le> length (coroutines d) + created d (fst (snd y))"
        using ih(1,2) eff(1,2) by (simp add: created_def)
      have fin: "finished d (fst (snd y)) = finished d1 (fst (snd y))"
        using ih(1) eff(1,2) by (simp add: finished_def created_def)
      have r: "take i ?f = take i (coroutines d) \<and>
           (\<forall>c \<in> set (drop i ?f). \<not> coroutineState.closed c) \<and>
           (ab' \<longleftrightarrow> ab \<and> (\<forall>c \<in> set (drop i ?f). keptBlocked c) \<and>
              finished d (fst (snd y)) = 0)" if y: "fst y = Inr ab'" for ab'
      proof -
        from ih(3) y have t: "take (Suc i) ?f = take (Suc i) (coroutines d1)"
          and cl: "\<forall>c \<in> set (drop (Suc i) ?f). \<not> coroutineState.closed c"
          and ab': "ab' \<longleftrightarrow> (ab \<and> keptBlocked ?c) \<and>
              (\<forall>c \<in> set (drop (Suc i) ?f). keptBlocked c) \<and> finished d1 (fst (snd y)) = 0"
          by simp_all
        from t have "length (take (Suc i) ?f) = length (take (Suc i) (coroutines d1))"
          by (rule arg_cong)
        with i1 have "min (length ?f) (Suc i) = Suc i" by simp
        then have lf: "i < length ?f" by linarith
        from t have "take (Suc i) ?f ! i = take (Suc i) (coroutines d1) ! i" by simp
        then have fi: "?f ! i = ?c" by simp
        have dr: "drop i ?f = ?c # drop (Suc i) ?f"
          using lf fi by (simp add: Cons_nth_drop_Suc [symmetric])
        have "take i ?f = take i (take (Suc i) ?f)" by (simp add: min_def)
        also have "\<dots> = take i (coroutines d1)" by (simp only: t) (simp add: min_def)
        finally have ti: "take i ?f = take i (coroutines d)" by (simp add: eff(3))
        from ti cl ab' dr live fin show ?thesis by auto
      qed
      from s l r dw show ?thesis by (auto simp: passInv_def)
    qed
  qed
qed

lemma eachCoroutine_inv:
  assumes "eachCoroutine R i ab dw = Some y"
  shows "passInv i ab dw y"
  by (rule eachCoroutine.raw_induct [where P = "\<lambda>R. passInv", OF _ assms])
     (rule eachCoroutine_step)

lemma pass_spawnAndExit:
  "pass runScript (spawnAndExit\<lparr>executing := True\<rparr>, ()) =
     Some (Returns None, spawnAndExit\<lparr>sequence := 2, coroutines := [], executing := True\<rparr>, ())"
  by (simp add: pass_def eachCoroutine.simps call_def spawnAndExit_def spawn_def newCoroutine_def
      newNamedCoroutine_def newState_def Let_def)

lemma pass_cases:
  assumes "pass R (d0, w0) = Some (ctl, d1, w1)"
  shows "(ctl = Returns None \<longrightarrow> coroutines d1 = [] \<or> quiet d0 d1) \<and>
         (ctl = NextPass \<longrightarrow> coroutines d1 \<noteq> [] \<and> \<not> quiet d0 d1)"
proof (cases "eachCoroutine R 0 True (d0, w0)")
  case None
  with assms show ?thesis by (simp add: pass_def)
next
  case (Some y)
  obtain res d w where y: "y = (res, d, w)" by (cases y)
  from eachCoroutine_inv [OF Some] y have inv:
    "sequence d0 \<le> sequence d"
    "\<forall>ab'. res = Inr ab' \<longrightarrow>
       (ab' \<longleftrightarrow> (\<forall>c \<in> set (coroutines d). keptBlocked c) \<and> finished d0 d = 0)"
    by (auto simp: passInv_def)
  show ?thesis
  proof (cases res)
    case (Inl e)
    with assms Some y show ?thesis by (auto simp: pass_def)
  next
    case (Inr ab)
    with inv(2) have ab: "ab \<longleftrightarrow> (\<forall>c \<in> set (coroutines d). keptBlocked c) \<and> finished d0 d = 0"
      by simp
    have cr: "created d0 d = 0 \<longleftrightarrow> sequence d0 = sequence d"
      using inv(1) by (auto simp: created_def)
    from assms Some y Inr have r:
      "(d1, w1) = (d, w)"
      "ctl = (if coroutines d = [] \<or> (ab \<and> sequence d0 = sequence d) then Returns None else NextPass)"
      by (auto simp: pass_def Let_def split: if_splits)
    from r ab cr show ?thesis by (auto simp: quiet_def)
  qed
qed

lemma passes_final:
  assumes "passes R s = Some y"
  shows "\<exists>s0. (nextPass R)\<^sup>*\<^sup>* s s0 \<and> pass R s0 = Some (Returns (fst y), snd y)"
proof (rule passes.raw_induct
    [where P = "\<lambda>R s y. \<exists>s0. (nextPass R)\<^sup>*\<^sup>* s s0 \<and> pass R s0 = Some (Returns (fst y), snd y)",
     OF _ assms])
  fix ps :: "('a \<Rightarrow> 'b \<Rightarrow> ('a, 'b) turn option) \<Rightarrow> 'a dispatcherImpl \<times> 'b \<Rightarrow>
      (PanicError option \<times> 'a dispatcherImpl \<times> 'b) option"
  fix R s y
  assume IH: "\<And>R s y. ps R s = Some y \<Longrightarrow>
      \<exists>s0. (nextPass R)\<^sup>*\<^sup>* s s0 \<and> pass R s0 = Some (Returns (fst y), snd y)"
    and body: "(case pass R s of None \<Rightarrow> None
        | Some (Returns pe, dw') \<Rightarrow> Some (pe, dw')
        | Some (NextPass, dw') \<Rightarrow> ps R dw') = Some y"
  from body obtain ctl s' where p: "pass R s = Some (ctl, s')"
    by (auto split: option.splits)
  show "\<exists>s0. (nextPass R)\<^sup>*\<^sup>* s s0 \<and> pass R s0 = Some (Returns (fst y), snd y)"
  proof (cases ctl)
    case (Returns pe)
    with body p have "y = (pe, s')" by simp
    with p Returns have "pass R s = Some (Returns (fst y), snd y)" by simp
    then show ?thesis by blast
  next
    case NextPass
    with body p have "ps R s' = Some y" by simp
    from IH [OF this] obtain s0 where
      s0: "(nextPass R)\<^sup>*\<^sup>* s' s0" "pass R s0 = Some (Returns (fst y), snd y)" by blast
    from p NextPass have "nextPass R s s'" by (simp add: nextPass_def)
    from this s0(1) have "(nextPass R)\<^sup>*\<^sup>* s s0" by (rule converse_rtranclp_into_rtranclp)
    with s0(2) show ?thesis by blast
  qed
qed

text \<open>
  Claim C1, as the code has it. When \<^verbatim>\<open>ExecuteUntilAllBlocked\<close> returns nil, the last pass
  it ran (reached from the first by passes that each asked for another) either left the
  list of coroutines empty, or was quiet: every coroutine in the list reported
  \<^verbatim>\<open>keptBlocked\<close>, none was created (\<^verbatim>\<open>sequence\<close> is unchanged) and none finished. A pass
  that ends without returning a panic is followed by another pass exactly when it
  leaves a coroutine in the list and was not quiet.
\<close>

theorem ExecuteUntilAllBlocked_nil:
  "(ExecuteUntilAllBlocked R (d, w) = Some (Inr (None, d', w')) \<longrightarrow>
      (\<exists>d0 w0 d1. (nextPass R)\<^sup>*\<^sup>* (d\<lparr>executing := True\<rparr>, w) (d0, w0) \<and>
         pass R (d0, w0) = Some (Returns None, d1, w') \<and> d' = d1\<lparr>executing := False\<rparr> \<and>
         (coroutines d1 = [] \<or> quiet d0 d1))) \<and>
   (pass R (e0, v0) = Some (ctl, e1, v1) \<longrightarrow>
      (ctl = NextPass \<longleftrightarrow>
         (\<forall>pe. ctl \<noteq> Returns (Some pe)) \<and> coroutines e1 \<noteq> [] \<and> \<not> quiet e0 e1) \<and>
      (ctl = NextPass \<longrightarrow> passes R (e0, v0) = passes R (e1, v1)))"
proof (intro conjI impI)
  assume ex: "ExecuteUntilAllBlocked R (d, w) = Some (Inr (None, d', w'))"
  then obtain d1 where p: "passes R (d\<lparr>executing := True\<rparr>, w) = Some (None, d1, w')"
    and d': "d' = d1\<lparr>executing := False\<rparr>"
    by (auto simp: ExecuteUntilAllBlocked_def split: if_splits option.splits)
  from passes_final [OF p] obtain d0 w0 where
    r: "(nextPass R)\<^sup>*\<^sup>* (d\<lparr>executing := True\<rparr>, w) (d0, w0)"
    and l: "pass R (d0, w0) = Some (Returns None, d1, w')"
    by auto
  from pass_cases [OF l] have "coroutines d1 = [] \<or> quiet d0 d1" by simp
  with r l d' show "\<exists>d0 w0 d1. (nextPass R)\<^sup>*\<^sup>* (d\<lparr>executing := True\<rparr>, w) (d0, w0) \<and>
         pass R (d0, w0) = Some (Returns None, d1, w') \<and> d' = d1\<lparr>executing := False\<rparr> \<and>
         (coroutines d1 = [] \<or> quiet d0 d1)"
    by blast
next
  assume p: "pass R (e0, v0) = Some (ctl, e1, v1)"
  from pass_cases [OF p] show "ctl = NextPass \<longleftrightarrow>
         (\<forall>pe. ctl \<noteq> Returns (Some pe)) \<and> coroutines e1 \<noteq> [] \<and> \<not> quiet e0 e1"
    by (cases ctl) (auto simp: option.exhaust)
next
  assume p: "pass R (e0, v0) = Some (ctl, e1, v1)" and n: "ctl = NextPass"
  then show "passes R (e0, v0) = passes R (e1, v1)"
    by (subst passes.simps) simp
qed

lemma pass_twoBlocked:
  "pass runScript (twoBlocked\<lparr>executing := True\<rparr>, ()) = Some (NextPass, twoBlocked1, ())"
  by (simp add: pass_def eachCoroutine.simps call_def twoBlocked_def twoBlocked1_def Let_def)

lemma pass_twoBlocked1:
  "pass runScript (twoBlocked1, ()) = Some (Returns None, twoBlocked2\<lparr>executing := True\<rparr>, ())"
  by (simp add: pass_def eachCoroutine.simps call_def twoBlocked_def twoBlocked1_def
      twoBlocked2_def Let_def)

lemma ExecuteUntilAllBlocked_twoBlocked:
  "ExecuteUntilAllBlocked runScript (twoBlocked, ()) = Some (Inr (None, twoBlocked2, ()))"
proof -
  have "passes runScript (twoBlocked\<lparr>executing := True\<rparr>, ()) =
      Some (None, twoBlocked2\<lparr>executing := True\<rparr>, ())"
    by (subst passes.simps, simp add: pass_twoBlocked, subst passes.simps)
       (simp add: pass_twoBlocked1)
  then show ?thesis
    by (simp add: ExecuteUntilAllBlocked_def) (simp add: twoBlocked_def twoBlocked2_def)
qed

theorem ExecuteUntilAllBlocked_nil_witness:
  "ExecuteUntilAllBlocked runScript (twoBlocked, ()) = Some (Inr (None, twoBlocked2, ())) \<and>
   (\<exists>d0 w0 d1. (nextPass runScript)\<^sup>*\<^sup>* (twoBlocked\<lparr>executing := True\<rparr>, ()) (d0, w0) \<and>
      pass runScript (d0, w0) = Some (Returns None, d1, ()) \<and>
      twoBlocked2 = d1\<lparr>executing := False\<rparr> \<and> (coroutines d1 = [] \<or> quiet d0 d1)) \<and>
   pass runScript (twoBlocked\<lparr>executing := True\<rparr>, ()) = Some (NextPass, twoBlocked1, ()) \<and>
   coroutines twoBlocked1 \<noteq> [] \<and> \<not> quiet (twoBlocked\<lparr>executing := True\<rparr>) twoBlocked1 \<and>
   passes runScript (twoBlocked\<lparr>executing := True\<rparr>, ()) = passes runScript (twoBlocked1, ())"
  using ExecuteUntilAllBlocked_nil [of runScript twoBlocked "()" twoBlocked2 "()"
      "twoBlocked\<lparr>executing := True\<rparr>" "()" NextPass twoBlocked1 "()"]
    ExecuteUntilAllBlocked_twoBlocked pass_twoBlocked
  by simp

text \<open>
  Claim C1 as it is stated fails: \<^verbatim>\<open>ExecuteUntilAllBlocked\<close> returns nil after a single
  pass (the pass ends the loop) in which one coroutine was created, so that \<^verbatim>\<open>sequence\<close>
  changed, and two coroutines finished: the list is empty and the loop breaks.
\<close>

theorem ExecuteUntilAllBlocked_nil_counterexample:
  "ExecuteUntilAllBlocked runScript (spawnAndExit, ()) =
     Some (Inr (None, spawnAndExit\<lparr>sequence := 2, coroutines := []\<rparr>, ())) \<and>
   pass runScript (spawnAndExit\<lparr>executing := True\<rparr>, ()) =
     Some (Returns None, spawnAndExit\<lparr>sequence := 2, coroutines := [], executing := True\<rparr>, ()) \<and>
   sequence (spawnAndExit\<lparr>sequence := 2, coroutines := []\<rparr>) \<noteq> sequence spawnAndExit \<and>
   created spawnAndExit (spawnAndExit\<lparr>sequence := 2, coroutines := []\<rparr>) = 1 \<and>
   finished spawnAndExit (spawnAndExit\<lparr>sequence := 2, coroutines := []\<rparr>) = 2"
proof -
  have "passes runScript (spawnAndExit\<lparr>executing := True\<rparr>, ()) =
      Some (None, spawnAndExit\<lparr>sequence := 2, coroutines := [], executing := True\<rparr>, ())"
    by (subst passes.simps) (simp add: pass_spawnAndExit)
  then have "ExecuteUntilAllBlocked runScript (spawnAndExit, ()) =
     Some (Inr (None, spawnAndExit\<lparr>sequence := 2, coroutines := []\<rparr>, ()))"
    by (simp add: ExecuteUntilAllBlocked_def) (simp add: spawnAndExit_def)
  moreover have "created spawnAndExit (spawnAndExit\<lparr>sequence := 2, coroutines := []\<rparr>) = 1"
    "finished spawnAndExit (spawnAndExit\<lparr>sequence := 2, coroutines := []\<rparr>) = 2"
    "sequence (spawnAndExit\<lparr>sequence := 2, coroutines := []\<rparr>) \<noteq> sequence spawnAndExit"
    by (simp_all add: created_def finished_def spawnAndExit_def)
  ultimately show ?thesis using pass_spawnAndExit by simp
qed

section \<open>Channels: receiving after close, sending after close\<close>

lemma chans_runReceiveCallback: "chans (snd (runReceiveCallback cb v m w)) = chans w"
  by (simp add: runReceiveCallback_def clearFutureFunc_def Let_def
      split: receiveCallback.split option.split)

lemma chans_runSendCallback: "chans (snd (runSendCallback cb w)) = chans w"
  by (simp add: runSendCallback_def split: sendCallback.split option.split)

lemma chans_fold_receive:
  "chans (fold (\<lambda>callback w. snd (runReceiveCallback callback v m w)) cbs w) = chans w"
  by (induction cbs arbitrary: w) (simp_all add: chans_runReceiveCallback)

lemma chans_fold_send:
  "chans (fold (\<lambda>b w. snd (runSendCallback (snd b) w)) bs w) = chans w"
  by (induction bs arbitrary: w) (simp_all add: chans_runSendCallback)

lemma chans_offerBlockedReceives:
  "chans (snd (snd (offerBlockedReceives cbs v w))) = chans w"
proof (induction cbs arbitrary: w)
  case Nil
  then show ?case by simp
next
  case (Cons cb cbs)
  obtain a w' where r: "runReceiveCallback cb v True w = (a, w')"
    by (cases "runReceiveCallback cb v True w")
  with chans_runReceiveCallback [of cb v True w] have "chans w' = chans w" by simp
  with r Cons.IH [of w'] show ?case by (cases a) simp_all
qed

lemma chans_takeBlockedSend:
  "chans (snd (snd (takeBlockedSend bs w))) = chans w"
proof (induction bs arbitrary: w)
  case Nil
  then show ?case by simp
next
  case (Cons b bs)
  obtain a w' where r: "runSendCallback (snd b) w = (a, w')"
    by (cases "runSendCallback (snd b) w")
  with chans_runSendCallback [of "snd b" w] have "chans w' = chans w" by simp
  with r Cons.IH [of w'] show ?case by (cases a) simp_all
qed

lemma chans_Close: "chans (Close c w) = (chans w)(c := (chans w c)\<lparr>channelImpl.closed := True\<rparr>)"
  by (simp add: Close_def Let_def chans_fold_receive chans_fold_send setChan_def)

lemma receiveAsyncImpl_closed_drained:
  assumes "channelImpl.closed (chans w c)" "buffer (chans w c) = []" "recValue (chans w c) = None"
  shows "receiveAsyncImpl callback c w = ((Nil, False, False), w)"
  using assms by (simp add: receiveAsyncImpl_def Let_def)

lemma receiveAsyncImpl_closed_buffer:
  assumes "channelImpl.closed (chans w c)" "buffer (chans w c) = v # vs" "recValue (chans w c) = None"
  shows "receiveAsyncImpl callback c w =
    ((v, True, True), setChan c ((chans w c)\<lparr>buffer := vs\<rparr>) w)"
  using assms by (simp add: receiveAsyncImpl_def Let_def)

lemma receiveAsyncImpl_stashed:
  assumes "recValue (chans w c) = Some r"
  shows "receiveAsyncImpl callback c w =
    ((r, True, True), setChan c ((chans w c)\<lparr>recValue := None\<rparr>) w)"
  using assms by (simp add: receiveAsyncImpl_def Let_def)

lemma receiveMany_closed_buffer:
  assumes "channelImpl.closed (chans w c)" "recValue (chans w c) = None"
  shows "fst (receiveMany (Suc (length (buffer (chans w c)))) c w) =
      map (\<lambda>v. (v, True, True)) (buffer (chans w c)) @ [(Nil, False, False)] \<and>
    buffer (chans (snd (receiveMany (Suc (length (buffer (chans w c)))) c w)) c) = [] \<and>
    recValue (chans (snd (receiveMany (Suc (length (buffer (chans w c)))) c w)) c) = None \<and>
    channelImpl.closed (chans (snd (receiveMany (Suc (length (buffer (chans w c)))) c w)) c)"
  using assms
proof (induction "buffer (chans w c)" arbitrary: w)
  case Nil
  then have b: "buffer (chans w c) = []" by simp
  from receiveAsyncImpl_closed_drained [OF Nil(2) b Nil(3), of None] Nil(2,3) b
  show ?case by simp
next
  case (Cons v vs)
  then have b: "buffer (chans w c) = v # vs" by simp
  let ?w1 = "setChan c ((chans w c)\<lparr>buffer := vs\<rparr>) w"
  have r: "receiveAsyncImpl None c w = ((v, True, True), ?w1)"
    by (rule receiveAsyncImpl_closed_buffer [OF Cons(3) b Cons(4)])
  have w1: "vs = buffer (chans ?w1 c)" "channelImpl.closed (chans ?w1 c)"
    "recValue (chans ?w1 c) = None"
    using Cons(3,4) by (simp_all add: setChan_def)
  from Cons(1) [OF w1] have ih:
    "fst (receiveMany (Suc (length vs)) c ?w1) =
       map (\<lambda>v. (v, True, True)) vs @ [(Nil, False, False)]"
    "buffer (chans (snd (receiveMany (Suc (length vs)) c ?w1)) c) = []"
    "recValue (chans (snd (receiveMany (Suc (length vs)) c ?w1)) c) = None"
    "channelImpl.closed (chans (snd (receiveMany (Suc (length vs)) c ?w1)) c)"
    using w1(1) by simp_all
  obtain rs w2 where m: "receiveMany (Suc (length vs)) c ?w1 = (rs, w2)"
    by (cases "receiveMany (Suc (length vs)) c ?w1")
  have "receiveMany (Suc (Suc (length vs))) c w = ((v, True, True) # rs, w2)"
    using r m by (simp del: receiveMany.simps add: receiveMany.simps(2) [of "Suc (length vs)"])
  with ih m b show ?case by simp
qed


lemma receiveMany_closed_held:
  assumes cl: "channelImpl.closed (chans w c)"
  shows "fst (receiveMany (Suc (length (held (chans w c)))) c w) =
      map (\<lambda>v. (v, True, True)) (held (chans w c)) @ [(Nil, False, False)] \<and>
    held (chans (snd (receiveMany (Suc (length (held (chans w c)))) c w)) c) = [] \<and>
    channelImpl.closed (chans (snd (receiveMany (Suc (length (held (chans w c)))) c w)) c)"
proof (cases "recValue (chans w c)")
  case None
  with receiveMany_closed_buffer [OF cl None] show ?thesis by (simp add: held_def)
next
  case (Some r)
  let ?w1 = "setChan c ((chans w c)\<lparr>recValue := None\<rparr>) w"
  have r: "receiveAsyncImpl None c w = ((r, True, True), ?w1)"
    by (rule receiveAsyncImpl_stashed [OF Some])
  have w1: "channelImpl.closed (chans ?w1 c)" "recValue (chans ?w1 c) = None"
    "buffer (chans ?w1 c) = buffer (chans w c)"
    using cl by (simp_all add: setChan_def)
  let ?n = "Suc (length (buffer (chans w c)))"
  from receiveMany_closed_buffer [OF w1(1,2)] w1(3) have ih:
    "fst (receiveMany ?n c ?w1) =
       map (\<lambda>v. (v, True, True)) (buffer (chans w c)) @ [(Nil, False, False)]"
    "buffer (chans (snd (receiveMany ?n c ?w1)) c) = []"
    "recValue (chans (snd (receiveMany ?n c ?w1)) c) = None"
    "channelImpl.closed (chans (snd (receiveMany ?n c ?w1)) c)"
    by simp_all
  obtain rs w2 where m: "receiveMany ?n c ?w1 = (rs, w2)" by (cases "receiveMany ?n c ?w1")
  have len: "Suc (length (held (chans w c))) = Suc ?n" using Some by (simp add: held_def)
  have "receiveMany (Suc ?n) c w = ((r, True, True) # rs, w2)"
    using r m by (simp del: receiveMany.simps add: receiveMany.simps(2) [of ?n])
  with ih m Some show ?thesis unfolding len by (simp add: held_def)
qed

lemma Receive_drained:
  assumes "channelImpl.closed (chans w c)" "buffer (chans w c) = []" "recValue (chans w c) = None"
  shows "Receive decodeArg c NilDest w =
    (Returned (False, Unchanged),
     w\<lparr>frameCount := frameCount w + 1,
       receiveFrames := (receiveFrames w)
         (frameCount w := \<lparr>hasResult = False, result = Nil, more' = False\<rparr>)\<rparr>)"
  using assms
  by (simp add: Receive_def Let_def receiveAsyncImpl_def assignValue_def decodeAndAssignValue_def)

text \<open>
  Claim C3, as the code has it. On a channel that is closed and drained (empty buffer,
  nothing stashed), \<^verbatim>\<open>receiveAsyncImpl\<close> returns nil with \<open>ok\<close> and \<open>more\<close> false and changes
  nothing; \<^verbatim>\<open>Receive\<close> and \<^verbatim>\<open>ReceiveAsyncWithMoreFlag\<close> then do not yield and leave every
  channel as it was: called with nil or with a pointer they return \<open>more = false\<close> and
  store nothing, called with a value that is not a pointer they panic in
  \<^verbatim>\<open>assignValue\<close>. The values a channel holds when it is closed are still handed out, in
  order, each with \<open>ok\<close> and \<open>more\<close> true, by the receives that follow; after them the
  channel is closed and drained.
\<close>

theorem Receive_closed_drained:
  "(channelImpl.closed (chans w c) \<and> buffer (chans w c) = [] \<and> recValue (chans w c) = None \<longrightarrow>
      receiveAsyncImpl callback c w = ((Nil, False, False), w) \<and>
      fst (Receive decodeArg c valuePtr w) =
        (if valuePtr = NotPointer then Panicked ''value parameter provided is not a pointer''
         else Returned (False, Unchanged)) \<and>
      chans (snd (Receive decodeArg c valuePtr w)) = chans w \<and>
      ReceiveAsyncWithMoreFlag decodeArg c valuePtr w =
        (if valuePtr = NotPointer then Inl ''value parameter provided is not a pointer''
         else Inr (False, False, Unchanged), w)) \<and>
   fst (receiveMany (Suc (length (held (chans w c)))) c (Close c w)) =
      map (\<lambda>v. (v, True, True)) (held (chans w c)) @ [(Nil, False, False)] \<and>
   held (chans (snd (receiveMany (Suc (length (held (chans w c)))) c (Close c w))) c) = [] \<and>
   channelImpl.closed (chans (snd (receiveMany (Suc (length (held (chans w c)))) c (Close c w))) c)"
proof (intro conjI impI)
  assume a: "channelImpl.closed (chans w c) \<and> buffer (chans w c) = [] \<and> recValue (chans w c) = None"
  then show r: "receiveAsyncImpl callback c w = ((Nil, False, False), w)"
    by (simp add: receiveAsyncImpl_closed_drained)
  let ?w0 = "w\<lparr>frameCount := frameCount w + 1,
      receiveFrames := (receiveFrames w)
        (frameCount w := \<lparr>hasResult = False, result = Nil, more' = False\<rparr>)\<rparr>"
  have r0: "receiveAsyncImpl (Some (ReceiveLocals (frameCount w))) c ?w0 = ((Nil, False, False), ?w0)"
    using a by (simp add: receiveAsyncImpl_closed_drained)
  show "fst (Receive decodeArg c valuePtr w) =
        (if valuePtr = NotPointer then Panicked ''value parameter provided is not a pointer''
         else Returned (False, Unchanged))"
    using r0 by (cases valuePtr)
      (simp_all add: Receive_def Let_def assignValue_def decodeAndAssignValue_def)
  show "chans (snd (Receive decodeArg c valuePtr w)) = chans w"
    using r0 by (cases valuePtr)
      (simp_all add: Receive_def Let_def assignValue_def decodeAndAssignValue_def)
  show "ReceiveAsyncWithMoreFlag decodeArg c valuePtr w =
        (if valuePtr = NotPointer then Inl ''value parameter provided is not a pointer''
         else Inr (False, False, Unchanged), w)"
    using a by (cases valuePtr)
      (simp_all add: ReceiveAsyncWithMoreFlag_def receiveAsyncImpl_closed_drained
        assignValue_def decodeAndAssignValue_def)
next
  have cl: "channelImpl.closed (chans (Close c w) c)" by (simp add: chans_Close)
  have h: "held (chans (Close c w) c) = held (chans w c)" by (simp add: chans_Close held_def)
  from receiveMany_closed_held [OF cl] h
  show "fst (receiveMany (Suc (length (held (chans w c)))) c (Close c w)) =
      map (\<lambda>v. (v, True, True)) (held (chans w c)) @ [(Nil, False, False)]"
    and "held (chans (snd (receiveMany (Suc (length (held (chans w c)))) c (Close c w))) c) = []"
    and "channelImpl.closed
      (chans (snd (receiveMany (Suc (length (held (chans w c)))) c (Close c w))) c)"
    by simp_all
qed


lemma closedDrained_chan:
  "channelImpl.closed (chans closedDrained 0)" "buffer (chans closedDrained 0) = []"
  "recValue (chans closedDrained 0) = None"
  by (simp_all add: closedDrained_def chans_Close emptyWorld_def)

lemma receiveMany_threeHeld:
  "fst (receiveMany 4 0 (Close 0 threeHeld)) =
     [(Obj ''a'', True, True), (Obj ''b'', True, True), (Obj ''c'', True, True), (Nil, False, False)]"
  by (simp add: numeral_eq_Suc receiveAsyncImpl_def Let_def chans_Close threeHeld_def
      emptyWorld_def setChan_def)

theorem Receive_closed_drained_witness:
  "channelImpl.closed (chans closedDrained 0) \<and> buffer (chans closedDrained 0) = [] \<and>
   recValue (chans closedDrained 0) = None \<and>
   fst (Receive decodesAll 0 Pointer closedDrained) = Returned (False, Unchanged) \<and>
   ReceiveAsyncWithMoreFlag decodesAll 0 Pointer closedDrained =
     (Inr (False, False, Unchanged), closedDrained) \<and>
   fst (receiveMany 4 0 (Close 0 threeHeld)) =
     [(Obj ''a'', True, True), (Obj ''b'', True, True), (Obj ''c'', True, True), (Nil, False, False)]"
  using Receive_closed_drained [of closedDrained 0 None decodesAll Pointer]
    Receive_closed_drained [of threeHeld 0 None decodesAll Pointer]
    closedDrained_chan receiveMany_threeHeld
  by simp

text \<open>
  Claim C3 as it is stated fails for a destination that is not a pointer: on the closed
  and drained channel both calls panic.
\<close>

theorem Receive_closed_drained_counterexample:
  "channelImpl.closed (chans closedDrained 0) \<and> buffer (chans closedDrained 0) = [] \<and>
   recValue (chans closedDrained 0) = None \<and>
   fst (Receive decodesAll 0 NotPointer closedDrained) =
     Panicked ''value parameter provided is not a pointer'' \<and>
   fst (ReceiveAsyncWithMoreFlag decodesAll 0 NotPointer closedDrained) =
     Inl ''value parameter provided is not a pointer''"
proof -
  let ?w0 = "closedDrained\<lparr>frameCount := frameCount closedDrained + 1,
      receiveFrames := (receiveFrames closedDrained)
        (frameCount closedDrained := \<lparr>hasResult = False, result = Nil, more' = False\<rparr>)\<rparr>"
  have "receiveAsyncImpl (Some (ReceiveLocals (frameCount closedDrained))) 0 ?w0 =
      ((Nil, False, False), ?w0)"
    using closedDrained_chan by (simp add: receiveAsyncImpl_def Let_def)
  then have "fst (Receive decodesAll 0 NotPointer closedDrained) =
     Panicked ''value parameter provided is not a pointer''"
    by (simp add: Receive_def Let_def assignValue_def decodeAndAssignValue_def)
  moreover have "receiveAsyncImpl None 0 closedDrained = ((Nil, False, False), closedDrained)"
    using closedDrained_chan by (simp add: receiveAsyncImpl_def Let_def)
  then have "fst (ReceiveAsyncWithMoreFlag decodesAll 0 NotPointer closedDrained) =
     Inl ''value parameter provided is not a pointer''"
    by (simp add: ReceiveAsyncWithMoreFlag_def assignValue_def decodeAndAssignValue_def)
  ultimately show ?thesis using closedDrained_chan by simp
qed

lemma sendAsyncImpl_closed_after:
  "channelImpl.closed (chans (snd (sendAsyncImpl v pair c w)) c) = channelImpl.closed (chans w c)"
proof -
  obtain a rest w' where o: "offerBlockedReceives (blockedReceives (chans w c)) v w = (a, rest, w')"
    by (cases "offerBlockedReceives (blockedReceives (chans w c)) v w")
  with chans_offerBlockedReceives [of "blockedReceives (chans w c)" v w]
  have "chans w' = chans w" by simp
  with o show ?thesis
    by (cases a) (simp_all add: sendAsyncImpl_def Let_def setChan_def split: option.split)
qed

lemma sendAsyncImpl_panics:
  "(\<exists>e. fst (sendAsyncImpl v pair c w) = Inl e) \<longleftrightarrow> channelImpl.closed (chans w c)"
proof -
  obtain a rest w' where o: "offerBlockedReceives (blockedReceives (chans w c)) v w = (a, rest, w')"
    by (cases "offerBlockedReceives (blockedReceives (chans w c)) v w")
  then show ?thesis
    by (cases a) (simp_all add: sendAsyncImpl_def Let_def split: option.split)
qed

lemma Send_loop_panics:
  "(\<exists>e. fst (Send_loop k c w) = Panicked e) \<longleftrightarrow> channelImpl.closed (chans w c)"
  by (simp add: Send_loop_def)

lemma Send_panics:
  "(\<exists>e. fst (Send c v w) = Panicked e) \<longleftrightarrow> channelImpl.closed (chans w c)"
proof -
  let ?k = "frameCount w"
  let ?w0 = "w\<lparr>frameCount := ?k + 1, sendFrames := (sendFrames w)(?k := False)\<rparr>"
  obtain r w1 where s: "sendAsyncImpl v (Some (v, SendLocals ?k)) c ?w0 = (r, w1)"
    by (cases "sendAsyncImpl v (Some (v, SendLocals ?k)) c ?w0")
  have c0: "channelImpl.closed (chans ?w0 c) = channelImpl.closed (chans w c)" by simp
  from sendAsyncImpl_panics [of v "Some (v, SendLocals ?k)" c ?w0] s c0
  have p: "(\<exists>e. r = Inl e) \<longleftrightarrow> channelImpl.closed (chans w c)" by simp
  from sendAsyncImpl_closed_after [of v "Some (v, SendLocals ?k)" c ?w0] s c0
  have c1: "channelImpl.closed (chans w1 c) = channelImpl.closed (chans w c)" by simp
  show ?thesis
  proof (cases r)
    case (Inl e)
    with s p show ?thesis by (simp add: Send_def Let_def)
  next
    case (Inr ok)
    with p have nc: "\<not> channelImpl.closed (chans w c)" by auto
    with Inr s c1 show ?thesis
      by (cases ok) (simp_all add: Send_def Let_def Send_loop_def)
  qed
qed

lemma called_runSendCallback:
  "called cb w \<Longrightarrow> called cb (snd (runSendCallback cb' w))"
  by (auto simp: called_def runSendCallback_def split: sendCallback.splits option.splits)

lemma called_self: "called cb (snd (runSendCallback cb w))"
  by (auto simp: called_def runSendCallback_def split: sendCallback.splits option.splits)

lemma called_fold:
  "called cb w \<Longrightarrow> called cb (fold (\<lambda>b w. snd (runSendCallback (snd b) w)) bs w)"
  by (induction bs arbitrary: w) (simp_all add: called_runSendCallback)

lemma called_fold_all:
  "\<forall>b \<in> set bs. called (snd b) (fold (\<lambda>b w. snd (runSendCallback (snd b) w)) bs w)"
proof (induction bs arbitrary: w)
  case Nil
  then show ?case by simp
next
  case (Cons b bs)
  have "called (snd b) (fold (\<lambda>b w. snd (runSendCallback (snd b) w)) bs (snd (runSendCallback (snd b) w)))"
    by (rule called_fold) (rule called_self)
  with Cons.IH [of "snd (runSendCallback (snd b) w)"] show ?case by simp
qed

lemma Close_called: "\<forall>b \<in> set (blockedSends (chans w c)). called (snd b) (Close c w)"
proof -
  let ?w1 = "setChan c ((chans w c)\<lparr>channelImpl.closed := True\<rparr>) w"
  let ?w2 = "fold (\<lambda>callback w. snd (runReceiveCallback callback Nil False w))
                 (blockedReceives (chans ?w1 c)) ?w1"
  have "blockedSends (chans ?w2 c) = blockedSends (chans w c)"
    by (simp add: chans_fold_receive setChan_def)
  moreover have "Close c w = fold (\<lambda>b w. snd (runSendCallback (snd b) w)) (blockedSends (chans ?w2 c)) ?w2"
    by (simp add: Close_def Let_def)
  ultimately show ?thesis using called_fold_all [of "blockedSends (chans w c)" ?w2] by simp
qed

lemma selectFrames_kept:
  "selectFrames w k = Some x \<Longrightarrow> selectFrames (snd (runSendCallback cb w)) k = Some x"
  by (auto simp: runSendCallback_def split: sendCallback.splits option.splits)

lemma selectFrames_fold_kept:
  "selectFrames w k = Some x \<Longrightarrow>
   selectFrames (fold (\<lambda>b w. snd (runSendCallback (snd b) w)) bs w) k = Some x"
  by (induction bs arbitrary: w) (simp_all add: selectFrames_kept)

lemma selectFrames_fold_others:
  "\<forall>b \<in> set bs. \<forall>j. snd b \<noteq> SelectSend k j \<Longrightarrow>
   selectFrames (fold (\<lambda>b w. snd (runSendCallback (snd b) w)) bs w) k = selectFrames w k"
proof (induction bs arbitrary: w)
  case Nil
  then show ?case by simp
next
  case (Cons b bs)
  from Cons.prems have "selectFrames (snd (runSendCallback (snd b) w)) k = selectFrames w k"
    by (auto simp: runSendCallback_def split: sendCallback.splits option.splits)
  with Cons show ?case by simp
qed

lemma Close_fires_send:
  assumes "blockedReceives (chans w c) = []"
    and "blockedSends (chans w c) = pre @ (v, SelectSend k i) # rest"
    and "\<forall>b \<in> set pre. \<forall>j. snd b \<noteq> SelectSend k j"
    and "selectFrames w k = None"
  shows "selectFrames (Close c w) k = Some (SendBranch i)"
proof -
  let ?w1 = "setChan c ((chans w c)\<lparr>channelImpl.closed := True\<rparr>) w"
  let ?f = "\<lambda>b w. snd (runSendCallback (snd b) w)"
  have c: "Close c w = fold ?f (pre @ (v, SelectSend k i) # rest) ?w1"
    using assms(1,2) by (simp add: Close_def Let_def setChan_def)
  have "selectFrames (fold ?f pre ?w1) k = None"
    using selectFrames_fold_others [OF assms(3), of ?w1] assms(4) by (simp add: setChan_def)
  then have "selectFrames (?f (v, SelectSend k i) (fold ?f pre ?w1)) k = Some (SendBranch i)"
    by (simp add: runSendCallback_def)
  then have "selectFrames (fold ?f rest (?f (v, SelectSend k i) (fold ?f pre ?w1))) k =
      Some (SendBranch i)"
    by (rule selectFrames_fold_kept)
  with c show ?thesis by simp
qed

lemma Select_loop_called:
  "called (SelectSend k i) w \<Longrightarrow> \<exists>branch. fst (Select_loop k w) = Returned branch"
  by (auto simp: called_def Select_loop_def split: option.splits readyBranch.splits)

text \<open>
  Claim C4 against the code. \<^verbatim>\<open>SendAsync\<close> panics exactly when the channel is closed at the
  call; so does \<^verbatim>\<open>Send\<close> in its first attempt, and, while it is parked, each time the
  coroutine is resumed (the turn of its loop). \<^verbatim>\<open>Close\<close> closes the channel and calls the
  callback of every blocked send. A \<^verbatim>\<open>Send\<close> that was parked then finds \<^verbatim>\<open>valueConsumed\<close> set
  but panics when it is resumed, since it tests \<^verbatim>\<open>closed\<close> first. A sender that was parked
  by the send case of a \<^verbatim>\<open>Select\<close> does not panic, although \<^verbatim>\<open>Close\<close> says of its loop over
  the callbacks that all blocked sends are going to panic: the callback has set
  \<^verbatim>\<open>readyBranch\<close> of the \<^verbatim>\<open>Select\<close> or found it set, so the \<^verbatim>\<open>Select\<close> returns when it is
  resumed, having run the function of one of its cases; when no receiver was parked
  on the channel and the send case is the first of that \<^verbatim>\<open>Select\<close> in the queue of the
  channel, whose \<^verbatim>\<open>readyBranch\<close> was nil, it runs the function of this send case, as it
  does after a send that a receiver took. The value was not sent: when the channel
  held no value at the \<^verbatim>\<open>Close\<close>, every receive after it finds the channel closed and
  empty.
\<close>

theorem Send_panics_iff_closed:
  "((\<exists>e. fst (SendAsync c v w) = Inl e) \<longleftrightarrow> channelImpl.closed (chans w c)) \<and>
   ((\<exists>e. fst (Send c v w) = Panicked e) \<longleftrightarrow> channelImpl.closed (chans w c)) \<and>
   ((\<exists>e. fst (Send_loop k c w) = Panicked e) \<longleftrightarrow> channelImpl.closed (chans w c)) \<and>
   channelImpl.closed (chans (Close c w) c) \<and>
   (\<forall>b \<in> set (blockedSends (chans w c)). called (snd b) (Close c w)) \<and>
   (\<forall>b \<in> set (blockedSends (chans w c)). \<forall>j. snd b = SendLocals j \<longrightarrow>
      sendFrames (Close c w) j \<and>
      Send_loop j c (Close c w) = (Panicked ''Closed channel'', Close c w)) \<and>
   (\<forall>b \<in> set (blockedSends (chans w c)). \<forall>j i. snd b = SelectSend j i \<longrightarrow>
      (\<exists>branch. fst (Select_loop j (Close c w)) = Returned branch)) \<and>
   (\<forall>pre x j i rest.
      blockedReceives (chans w c) = [] \<and>
      blockedSends (chans w c) = pre @ (x, SelectSend j i) # rest \<and>
      (\<forall>b \<in> set pre. \<forall>i'. snd b \<noteq> SelectSend j i') \<and> selectFrames w j = None \<longrightarrow>
      Select_loop j (Close c w) = (Returned (SendFired i), Close c w)) \<and>
   (held (chans w c) = [] \<longrightarrow>
      (\<forall>callback. receiveAsyncImpl callback c (Close c w) = ((Nil, False, False), Close c w)))"
proof (intro conjI)
  show "(\<exists>e. fst (SendAsync c v w) = Inl e) \<longleftrightarrow> channelImpl.closed (chans w c)"
    by (simp only: SendAsync_def sendAsyncImpl_panics)
  show "(\<exists>e. fst (Send c v w) = Panicked e) \<longleftrightarrow> channelImpl.closed (chans w c)"
    by (rule Send_panics)
  show "(\<exists>e. fst (Send_loop k c w) = Panicked e) \<longleftrightarrow> channelImpl.closed (chans w c)"
    by (rule Send_loop_panics)
  show cl: "channelImpl.closed (chans (Close c w) c)" by (simp add: chans_Close)
  show "\<forall>b \<in> set (blockedSends (chans w c)). called (snd b) (Close c w)"
    by (rule Close_called)
  show "\<forall>b \<in> set (blockedSends (chans w c)). \<forall>j. snd b = SendLocals j \<longrightarrow>
      sendFrames (Close c w) j \<and>
      Send_loop j c (Close c w) = (Panicked ''Closed channel'', Close c w)"
  proof (intro ballI allI impI)
    fix b j assume "b \<in> set (blockedSends (chans w c))" and j: "snd b = SendLocals j"
    with Close_called [of w c] have "called (SendLocals j) (Close c w)" by auto
    then have "sendFrames (Close c w) j" by (simp add: called_def)
    moreover have "Send_loop j c (Close c w) = (Panicked ''Closed channel'', Close c w)"
      using cl by (simp add: Send_loop_def)
    ultimately show "sendFrames (Close c w) j \<and>
      Send_loop j c (Close c w) = (Panicked ''Closed channel'', Close c w)" by simp
  qed
  show "\<forall>b \<in> set (blockedSends (chans w c)). \<forall>j i. snd b = SelectSend j i \<longrightarrow>
      (\<exists>branch. fst (Select_loop j (Close c w)) = Returned branch)"
  proof (intro ballI allI impI)
    fix b j i assume "b \<in> set (blockedSends (chans w c))" and "snd b = SelectSend j i"
    with Close_called [of w c] have "called (SelectSend j i) (Close c w)" by auto
    then show "\<exists>branch. fst (Select_loop j (Close c w)) = Returned branch"
      by (rule Select_loop_called)
  qed
  show "\<forall>pre x j i rest.
      blockedReceives (chans w c) = [] \<and>
      blockedSends (chans w c) = pre @ (x, SelectSend j i) # rest \<and>
      (\<forall>b \<in> set pre. \<forall>i'. snd b \<noteq> SelectSend j i') \<and> selectFrames w j = None \<longrightarrow>
      Select_loop j (Close c w) = (Returned (SendFired i), Close c w)"
  proof (intro allI impI)
    fix pre x j i rest
    assume a: "blockedReceives (chans w c) = [] \<and>
      blockedSends (chans w c) = pre @ (x, SelectSend j i) # rest \<and>
      (\<forall>b \<in> set pre. \<forall>i'. snd b \<noteq> SelectSend j i') \<and> selectFrames w j = None"
    then have "selectFrames (Close c w) j = Some (SendBranch i)"
      by (intro Close_fires_send [of w c pre x j i rest]) simp_all
    then show "Select_loop j (Close c w) = (Returned (SendFired i), Close c w)"
      by (simp add: Select_loop_def)
  qed
  show "held (chans w c) = [] \<longrightarrow>
      (\<forall>callback. receiveAsyncImpl callback c (Close c w) = ((Nil, False, False), Close c w))"
  proof (intro impI allI)
    fix callback assume "held (chans w c) = []"
    then have "buffer (chans w c) = []" "recValue (chans w c) = None"
      by (simp_all add: held_def split: option.splits)
    then show "receiveAsyncImpl callback c (Close c w) = ((Nil, False, False), Close c w)"
      by (intro receiveAsyncImpl_closed_drained) (simp_all add: chans_Close)
  qed
qed

lemma parkedSend_chan:
  "fst (Send 0 (Obj ''x'') emptyWorld) = Yielded 0"
  "blockedSends (chans parkedSend 0) = [(Obj ''x'', SendLocals 0)]"
  "\<not> channelImpl.closed (chans parkedSend 0)"
  "\<not> sendFrames parkedSend 0"
  by (simp_all add: parkedSend_def Send_def Let_def sendAsyncImpl_def Send_loop_def
      emptyWorld_def setChan_def)

lemma parkedSelectSend_chan:
  "fst (Select 0 (AddSend 0 0 (Obj ''x'') (snd (NewSelector 1 (snd (NewChannel 1 emptyWorld)))))) =
     Yielded 0"
  "blockedSends (chans parkedSelectSend 0) = [(Obj ''x'', SelectSend 0 0)]"
  "blockedReceives (chans parkedSelectSend 0) = []"
  "\<not> channelImpl.closed (chans parkedSelectSend 0)"
  "held (chans parkedSelectSend 0) = []"
  "selectFrames parkedSelectSend 0 = None"
  by (simp_all add: parkedSelectSend_def Select_def Let_def probeCase_def sendAsyncImpl_def
      Select_loop_def AddSend_def addCase_def NewSelector_def NewNamedSelector_def NewChannel_def
      newChannel_def emptyWorld_def setChan_def held_def)

theorem Send_panics_iff_closed_witness:
  "fst (Send 0 (Obj ''x'') emptyWorld) = Yielded 0 \<and>
   blockedSends (chans parkedSend 0) = [(Obj ''x'', SendLocals 0)] \<and>
   \<not> channelImpl.closed (chans parkedSend 0) \<and>
   fst (Send_loop 0 0 parkedSend) = Yielded 0 \<and>
   sendFrames (Close 0 parkedSend) 0 \<and>
   Send_loop 0 0 (Close 0 parkedSend) = (Panicked ''Closed channel'', Close 0 parkedSend) \<and>
   fst (SendAsync 0 (Obj ''y'') (Close 0 parkedSend)) = Inl ''Closed channel'' \<and>
   fst (Select 0 (AddSend 0 0 (Obj ''x'') (snd (NewSelector 1 (snd (NewChannel 1 emptyWorld)))))) =
     Yielded 0 \<and>
   blockedSends (chans parkedSelectSend 0) = [(Obj ''x'', SelectSend 0 0)] \<and>
   fst (Select_loop 0 parkedSelectSend) = Yielded 0 \<and>
   Select_loop 0 (Close 0 parkedSelectSend) = (Returned (SendFired 0), Close 0 parkedSelectSend) \<and>
   receiveAsyncImpl None 0 (Close 0 parkedSelectSend) = ((Nil, False, False), Close 0 parkedSelectSend)"
proof -
  have "fst (Send_loop 0 0 parkedSend) = Yielded 0"
    using parkedSend_chan by (simp add: Send_loop_def)
  moreover have "fst (SendAsync 0 (Obj ''y'') (Close 0 parkedSend)) = Inl ''Closed channel''"
    by (simp add: SendAsync_def sendAsyncImpl_def chans_Close)
  moreover have "fst (Select_loop 0 parkedSelectSend) = Yielded 0"
    using parkedSelectSend_chan by (simp add: Select_loop_def)
  moreover note t = Send_panics_iff_closed [of 0 "Obj ''x''" parkedSelectSend 0]
  from t have q: "\<forall>pre x j i rest.
      blockedReceives (chans parkedSelectSend 0) = [] \<and>
      blockedSends (chans parkedSelectSend 0) = pre @ (x, SelectSend j i) # rest \<and>
      (\<forall>b \<in> set pre. \<forall>i'. snd b \<noteq> SelectSend j i') \<and> selectFrames parkedSelectSend j = None \<longrightarrow>
      Select_loop j (Close 0 parkedSelectSend) = (Returned (SendFired i), Close 0 parkedSelectSend)"
    by (elim conjE)
  from q [rule_format, of "[]" "Obj ''x''" 0 0 "[]"] parkedSelectSend_chan
  have "Select_loop 0 (Close 0 parkedSelectSend) = (Returned (SendFired 0), Close 0 parkedSelectSend)"
    by simp
  moreover from t parkedSelectSend_chan
  have "receiveAsyncImpl None 0 (Close 0 parkedSelectSend) =
      ((Nil, False, False), Close 0 parkedSelectSend)" by simp
  ultimately show ?thesis
    using Send_panics_iff_closed [of 0 "Obj ''x''" parkedSend 0] parkedSend_chan
      parkedSelectSend_chan by simp
qed

section \<open>Futures: setting once, chaining\<close>

lemma futs_runReceiveCallback: "futs (snd (runReceiveCallback cb v m w)) = futs w"
  by (simp add: runReceiveCallback_def clearFutureFunc_def Let_def
      split: receiveCallback.split option.split)

lemma futs_runSendCallback: "futs (snd (runSendCallback cb w)) = futs w"
  by (simp add: runSendCallback_def split: sendCallback.split option.split)

lemma futs_fold_receive:
  "futs (fold (\<lambda>callback w. snd (runReceiveCallback callback v m w)) cbs w) = futs w"
  by (induction cbs arbitrary: w) (simp_all add: futs_runReceiveCallback)

lemma futs_fold_send:
  "futs (fold (\<lambda>b w. snd (runSendCallback (snd b) w)) bs w) = futs w"
  by (induction bs arbitrary: w) (simp_all add: futs_runSendCallback)

lemma futs_Close: "futs (Close c w) = futs w"
  by (simp add: Close_def Let_def futs_fold_receive futs_fold_send setChan_def)














lemma twoFutures_eval:
  "futs twoFutures =
     [\<lparr>fvalue = Nil, err = None, ready = False, futureImpl.channel = 0, chained = []\<rparr>,
      \<lparr>fvalue = Nil, err = None, ready = False, futureImpl.channel = 1, chained = []\<rparr>]"
  "chans twoFutures 0 = \<lparr>channelImpl.name = Numbered 1, size' = 0, buffer = [], blockedSends = [],
          blockedReceives = [], channelImpl.closed = False, recValue = None\<rparr>"
  "chans twoFutures (Suc 0) = \<lparr>channelImpl.name = Numbered 2, size' = 0, buffer = [], blockedSends = [],
          blockedReceives = [], channelImpl.closed = False, recValue = None\<rparr>"
  "frameCount twoFutures = 0"
  by (simp_all add: twoFutures_def NewFuture_def NewChannel_def newChannel_def setChan_def
      emptyWorld_def)







text \<open>
  Claim C6 against the code. \<^verbatim>\<open>f.Chain(g)\<close> with \<open>g\<close> ready and \<open>f\<close> not ready, the channel of
  \<open>f\<close> open and empty with no sender parked on it (as \<^verbatim>\<open>NewFuture\<close> made it): \<^verbatim>\<open>Chain\<close>
  returns, \<open>f\<close> is ready with the value and the error of \<open>g\<close>, and no channel has
  changed. \<^verbatim>\<open>Get\<close> on \<open>f\<close> then receives from the open channel before it looks at \<^verbatim>\<open>ready\<close>:
  it parks and yields, and yields again when it is resumed; \<^verbatim>\<open>GetAsync\<close> reports the
  future as not ready; and \<^verbatim>\<open>Set\<close> on \<open>f\<close>, the only call that would close the channel,
  panics.
\<close>

theorem Chain_ready_Get_parks:
  assumes "f < length (futs w)" "g < length (futs w)"
    and "\<not> ready (futs w ! f)" "ready (futs w ! g)"
    and "\<not> channelImpl.closed (chans w (futureImpl.channel (futs w ! f)))"
    and "held (chans w (futureImpl.channel (futs w ! f))) = []"
    and "blockedSends (chans w (futureImpl.channel (futs w ! f))) = []"
  shows "fst (Chain f g w) = Returned () \<and>
    IsReady f (snd (Chain f g w)) \<and>
    fvalue (futs (snd (Chain f g w)) ! f) = fvalue (futs w ! g) \<and>
    err (futs (snd (Chain f g w)) ! f) = err (futs w ! g) \<and>
    chans (snd (Chain f g w)) = chans w \<and>
    fst (Get decodeArg f valuePtr (snd (Chain f g w))) = Yielded (frameCount w) \<and>
    fst (Get_resumed decodeArg (frameCount w) f valuePtr
           (snd (Get decodeArg f valuePtr (snd (Chain f g w))))) = Yielded (frameCount w) \<and>
    fst (GetAsync None f (snd (Chain f g w))) = Inr (Nil, False, None) \<and>
    fst (Set f v e (snd (Chain f g w))) = Panicked ''already set''"
proof -
  define w1 where "w1 = w\<lparr>futs := (futs w)[f := (futs w ! f)
           \<lparr>fvalue := fvalue (futs w ! g), err := err (futs w ! g), ready := True\<rparr>]\<rparr>"
  have c: "Chain f g w = (Returned (), w1)"
    using assms(1-4) by (simp add: Chain_def IsReady_def w1_def)
  have ch: "futureImpl.channel (futs w1 ! f) = futureImpl.channel (futs w ! f)"
    "chans w1 = chans w" "length (futs w1) = length (futs w)" "frameCount w1 = frameCount w"
    "ready (futs w1 ! f)" "fvalue (futs w1 ! f) = fvalue (futs w ! g)"
    "err (futs w1 ! f) = err (futs w ! g)"
    using assms(1) by (simp_all add: w1_def)
  from assms(6) have d: "buffer (chans w (futureImpl.channel (futs w ! f))) = []"
    "recValue (chans w (futureImpl.channel (futs w ! f))) = None"
    by (simp_all add: held_def split: option.splits)
  have get: "fst (Get decodeArg f valuePtr w1) = Yielded (frameCount w)"
    using assms(1,5,7) d ch
    by (simp add: Get_def Receive_def Let_def receiveAsyncImpl_def setChan_def Receive_loop_def)
  have res: "fst (Get_resumed decodeArg (frameCount w) f valuePtr
           (snd (Get decodeArg f valuePtr w1))) = Yielded (frameCount w)"
    using assms(1,5,7) d ch
    by (simp add: Get_resumed_def Get_def Receive_def Let_def receiveAsyncImpl_def setChan_def
        Receive_loop_def)
  have ga: "fst (GetAsync None f w1) = Inr (Nil, False, None)"
    using assms(1,5,7) d ch
    by (simp add: GetAsync_def Let_def receiveAsyncImpl_def setChan_def)
  have st: "fst (Set f v e w1) = Panicked ''already set''"
    using assms(1) ch by (simp add: Set_def)
  from c ch get res ga st show ?thesis by (simp add: IsReady_def)
qed

lemma chainedToReady_before:
  "futs (snd (SetValue 0 (Obj ''v'') twoFutures)) =
     [\<lparr>fvalue = Obj ''v'', err = None, ready = True, futureImpl.channel = 0, chained = []\<rparr>,
      \<lparr>fvalue = Nil, err = None, ready = False, futureImpl.channel = 1, chained = []\<rparr>]"
  "chans (snd (SetValue 0 (Obj ''v'') twoFutures)) (Suc 0) = chans twoFutures (Suc 0)"
  "frameCount (snd (SetValue 0 (Obj ''v'') twoFutures)) = 0"
  by (simp_all add: SetValue_def Set_def Let_def futs_Close chans_Close Close_def setChan_def
      twoFutures_eval)

theorem Chain_ready_Get_parks_witness:
  "fst (SetValue 0 (Obj ''v'') twoFutures) = Returned () \<and>
   fst (Chain 1 0 (snd (SetValue 0 (Obj ''v'') twoFutures))) = Returned () \<and>
   IsReady 1 chainedToReady \<and>
   fvalue (futs chainedToReady ! 1) = Obj ''v'' \<and>
   \<not> channelImpl.closed (chans chainedToReady 1) \<and>
   fst (Get decodesAll 1 Pointer chainedToReady) = Yielded 0 \<and>
   fst (Get_resumed decodesAll 0 1 Pointer (snd (Get decodesAll 1 Pointer chainedToReady))) =
     Yielded 0 \<and>
   fst (Set 1 (Obj ''v'') None chainedToReady) = Panicked ''already set''"
proof -
  have "fst (SetValue 0 (Obj ''v'') twoFutures) = Returned ()"
    by (simp add: SetValue_def Set_def Let_def futs_Close twoFutures_eval)
  then show ?thesis
    using Chain_ready_Get_parks [of 1 "snd (SetValue 0 (Obj ''v'') twoFutures)" 0 decodesAll
        Pointer "Obj ''v''" None]
    by (simp add: chainedToReady_def chainedToReady_before twoFutures_eval held_def)
qed

section \<open>Selectors: the earliest ready case\<close>

lemma runSendCallback_declines:
  "\<not> acceptsSend cb w \<Longrightarrow> runSendCallback cb w = (False, w)"
  by (auto simp: acceptsSend_def runSendCallback_def split: sendCallback.splits option.splits)

lemma runSendCallback_accepts:
  "acceptsSend cb w \<Longrightarrow> fst (runSendCallback cb w) = True"
  by (auto simp: acceptsSend_def runSendCallback_def split: sendCallback.splits option.splits)

lemma sels_runSendCallback: "sels (snd (runSendCallback cb w)) = sels w"
  by (simp add: runSendCallback_def split: sendCallback.split option.split)

lemma runReceiveCallback_declines:
  "\<not> acceptsReceive cb w \<Longrightarrow> runReceiveCallback cb v m w = (False, w)"
  by (auto simp: acceptsReceive_def runReceiveCallback_def split: receiveCallback.splits option.splits)

lemma runReceiveCallback_accepts:
  "acceptsReceive cb w \<Longrightarrow> fst (runReceiveCallback cb v m w) = True"
  by (auto simp: acceptsReceive_def runReceiveCallback_def split: receiveCallback.splits option.splits)

lemma takeBlockedSend_none:
  "\<forall>b \<in> set bs. \<not> acceptsSend (snd b) w \<Longrightarrow> takeBlockedSend bs w = (None, [], w)"
  by (induction bs) (simp_all add: runSendCallback_declines)

lemma takeBlockedSend_some:
  "\<exists>b \<in> set bs. acceptsSend (snd b) w \<Longrightarrow> \<exists>v. fst (takeBlockedSend bs w) = Some v"
proof (induction bs)
  case Nil
  then show ?case by simp
next
  case (Cons b bs)
  show ?case
  proof (cases "acceptsSend (snd b) w")
    case True
    obtain a w' where r: "runSendCallback (snd b) w = (a, w')" by (cases "runSendCallback (snd b) w")
    with runSendCallback_accepts [OF True] have "a" by simp
    with r show ?thesis by simp
  next
    case False
    with Cons.prems have "\<exists>b \<in> set bs. acceptsSend (snd b) w" by auto
    from Cons.IH [OF this] runSendCallback_declines [OF False] show ?thesis by simp
  qed
qed

lemma sels_takeBlockedSend: "sels (snd (snd (takeBlockedSend bs w))) = sels w"
proof (induction bs arbitrary: w)
  case Nil
  then show ?case by simp
next
  case (Cons b bs)
  obtain a w' where r: "runSendCallback (snd b) w = (a, w')" by (cases "runSendCallback (snd b) w")
  with sels_runSendCallback [of "snd b" w] have "sels w' = sels w" by simp
  with r Cons.IH [of w'] show ?case by (cases a) simp_all
qed

lemma offerBlockedReceives_none:
  "\<forall>cb \<in> set cbs. \<not> acceptsReceive cb w \<Longrightarrow> offerBlockedReceives cbs v w = (False, [], w)"
  by (induction cbs) (simp_all add: runReceiveCallback_declines)

lemma offerBlockedReceives_some:
  "\<exists>cb \<in> set cbs. acceptsReceive cb w \<Longrightarrow> fst (offerBlockedReceives cbs v w) = True"
proof (induction cbs)
  case Nil
  then show ?case by simp
next
  case (Cons cb cbs)
  show ?case
  proof (cases "acceptsReceive cb w")
    case True
    obtain a w' where r: "runReceiveCallback cb v True w = (a, w')"
      by (cases "runReceiveCallback cb v True w")
    with runReceiveCallback_accepts [OF True, of v True] have "a" by simp
    with r show ?thesis by simp
  next
    case False
    with Cons.prems have "\<exists>cb \<in> set cbs. acceptsReceive cb w" by auto
    from Cons.IH [OF this] runReceiveCallback_declines [OF False] show ?thesis by simp
  qed
qed

text \<open>What \<^verbatim>\<open>receiveAsyncImpl\<close> returns, by what the channel can do.\<close>

lemma receiveAsyncImpl_can:
  assumes "canReceive c w"
  shows "\<exists>v ok m w1. receiveAsyncImpl cb c w = ((v, ok, m), w1) \<and> (ok \<or> \<not> m)"
proof (cases "held (chans w c) \<noteq> [] \<or> channelImpl.closed (chans w c)")
  case True
  then show ?thesis
    by (auto simp: receiveAsyncImpl_def Let_def held_def split: option.splits list.splits)
next
  case False
  with assms have ex: "\<exists>b \<in> set (blockedSends (chans w c)). acceptsSend (snd b) w"
    by (simp add: canReceive_def)
  from takeBlockedSend_some [OF ex] obtain v where
    "fst (takeBlockedSend (blockedSends (chans w c)) w) = Some v" by blast
  then obtain rest w' where "takeBlockedSend (blockedSends (chans w c)) w = (Some v, rest, w')"
    by (cases "takeBlockedSend (blockedSends (chans w c)) w") auto
  with False show ?thesis
    by (auto simp: receiveAsyncImpl_def Let_def held_def split: option.splits list.splits)
qed

lemma receiveAsyncImpl_cannot:
  assumes "\<not> canReceive c w"
  shows "receiveAsyncImpl cb c w =
    ((Nil, False, True),
     setChan c
       (case cb of
          None \<Rightarrow> (chans w c)\<lparr>blockedSends := []\<rparr>
        | Some x \<Rightarrow> (chans w c)\<lparr>blockedSends := [],
            blockedReceives := blockedReceives (chans w c) @ [x]\<rparr>) w)"
proof -
  from assms have h: "recValue (chans w c) = None" "buffer (chans w c) = []"
    "\<not> channelImpl.closed (chans w c)"
    and no: "\<forall>b \<in> set (blockedSends (chans w c)). \<not> acceptsSend (snd b) w"
    by (auto simp: canReceive_def held_def split: option.splits)
  from takeBlockedSend_none [OF no] h show ?thesis
    by (simp add: receiveAsyncImpl_def Let_def split: option.splits)
qed

lemma sendAsyncImpl_can:
  assumes "canSend c w"
  shows "fst (sendAsyncImpl v p c w) = Inr True"
proof (cases "\<exists>cb \<in> set (blockedReceives (chans w c)). acceptsReceive cb w")
  case True
  from offerBlockedReceives_some [OF True, of v]
  obtain rest w' where "offerBlockedReceives (blockedReceives (chans w c)) v w = (True, rest, w')"
    by (cases "offerBlockedReceives (blockedReceives (chans w c)) v w") auto
  with assms show ?thesis by (simp add: sendAsyncImpl_def canSend_def)
next
  case False
  then have "\<forall>cb \<in> set (blockedReceives (chans w c)). \<not> acceptsReceive cb w" by simp
  from offerBlockedReceives_none [OF this, of v] assms False show ?thesis
    by (simp add: sendAsyncImpl_def canSend_def Let_def)
qed

lemma sendAsyncImpl_cannot:
  assumes "\<not> canSend c w" "\<not> channelImpl.closed (chans w c)"
  shows "fst (sendAsyncImpl v p c w) = Inr False \<and>
    sels (snd (sendAsyncImpl v p c w)) = sels w"
proof -
  from assms have no: "\<forall>cb \<in> set (blockedReceives (chans w c)). \<not> acceptsReceive cb w"
    and full: "\<not> int (length (buffer (chans w c))) < size' (chans w c)"
    by (auto simp: canSend_def)
  from offerBlockedReceives_none [OF no, of v] assms(2) full show ?thesis
    by (simp add: sendAsyncImpl_def Let_def setChan_def split: option.splits)
qed

lemma sels_receiveAsyncImpl: "sels (snd (receiveAsyncImpl cb c w)) = sels w"
proof -
  obtain a rest w' where t: "takeBlockedSend (blockedSends (chans w c)) w = (a, rest, w')"
    by (cases "takeBlockedSend (blockedSends (chans w c)) w")
  with sels_takeBlockedSend [of "blockedSends (chans w c)" w] have "sels w' = sels w" by simp
  with t show ?thesis
    by (cases a) (simp_all add: receiveAsyncImpl_def Let_def setChan_def split: option.splits list.splits)
qed

text \<open>One probe, by what its case can do in the memory where it is probed.\<close>

lemma probeCase_panics:
  assumes "casePanics (cases (sels w s) ! i) w"
  shows "\<exists>e. fst (probeCase k s i w) = Panics e"
proof -
  let ?pair = "cases (sels w s) ! i"
  from assms have nr: "\<not> receiveFunc ?pair" by (auto simp: casePanics_def split: if_splits)
  show ?thesis
  proof (cases "sendFunc ?pair")
    case True
    with assms nr have "channelImpl.closed (chans w (selectCase.channel ?pair))"
      by (simp add: casePanics_def)
    with True nr show ?thesis by (simp add: probeCase_def Let_def sendAsyncImpl_def)
  next
    case False
    with assms nr have ff: "futureFunc ?pair"
      and d: "length (futs w) \<le> future ?pair \<or>
         channelDone (future ?pair) w \<and> \<not> ready (futs w ! future ?pair)"
      by (simp_all add: casePanics_def)
    show ?thesis
    proof (cases "length (futs w) \<le> future ?pair")
      case True
      with False nr ff show ?thesis by (simp add: probeCase_def Let_def GetAsync_def)
    next
      case v: False
      with d have cd: "channelDone (future ?pair) w" and r: "\<not> ready (futs w ! future ?pair)"
        by simp_all
      from cd have "receiveAsyncImpl (Some (SelectFuture k s i))
          (futureImpl.channel (futs w ! future ?pair)) w = ((Nil, False, False), w)"
        by (auto simp: channelDone_def held_def receiveAsyncImpl_def Let_def split: option.splits)
      with False nr ff v r show ?thesis by (simp add: probeCase_def Let_def GetAsync_def)
    qed
  qed
qed

lemma probeCase_fires:
  assumes "caseReady (cases (sels w s) ! i) w"
  shows "\<exists>b. fst (probeCase k s i w) = Fires b \<and> firedCase b = Some i"
proof -
  let ?pair = "cases (sels w s) ! i"
  show ?thesis
  proof (cases "receiveFunc ?pair")
    case True
    with assms have "canReceive (selectCase.channel ?pair) w" by (simp add: caseReady_def)
    from receiveAsyncImpl_can [OF this, of "Some (SelectReceive k (selectCase.channel ?pair) i)"]
    obtain v ok m w1 where
      "receiveAsyncImpl (Some (SelectReceive k (selectCase.channel ?pair) i))
         (selectCase.channel ?pair) w = ((v, ok, m), w1)" "ok \<or> \<not> m"
      by blast
    with True show ?thesis by (auto simp: probeCase_def Let_def)
  next
    case nr: False
    show ?thesis
    proof (cases "sendFunc ?pair")
      case True
      with assms nr have "canSend (selectCase.channel ?pair) w" by (simp add: caseReady_def)
      from sendAsyncImpl_can [OF this, of "sendValue ?pair" "Some (sendValue ?pair, SelectSend k i)"]
      obtain w1 where "sendAsyncImpl (sendValue ?pair) (Some (sendValue ?pair, SelectSend k i))
          (selectCase.channel ?pair) w = (Inr True, w1)"
        by (cases "sendAsyncImpl (sendValue ?pair) (Some (sendValue ?pair, SelectSend k i))
          (selectCase.channel ?pair) w") auto
      with True nr show ?thesis by (simp add: probeCase_def Let_def)
    next
      case False
      with assms nr have ff: "futureFunc ?pair" and v: "future ?pair < length (futs w)"
        and cd: "channelDone (future ?pair) w" and r: "ready (futs w ! future ?pair)"
        by (simp_all add: caseReady_def)
      from cd have "receiveAsyncImpl (Some (SelectFuture k s i))
          (futureImpl.channel (futs w ! future ?pair)) w = ((Nil, False, False), w)"
        by (auto simp: channelDone_def held_def receiveAsyncImpl_def Let_def split: option.splits)
      with False nr ff v r show ?thesis by (simp add: probeCase_def Let_def GetAsync_def)
    qed
  qed
qed

lemma probeCase_passes:
  assumes "\<not> caseReady (cases (sels w s) ! i) w" "\<not> casePanics (cases (sels w s) ! i) w"
  shows "fst (probeCase k s i w) = Passes \<and> sels (snd (probeCase k s i w)) = sels w"
proof -
  let ?pair = "cases (sels w s) ! i"
  show ?thesis
  proof (cases "receiveFunc ?pair")
    case True
    with assms have "\<not> canReceive (selectCase.channel ?pair) w" by (simp add: caseReady_def)
    from receiveAsyncImpl_cannot [OF this, of "Some (SelectReceive k (selectCase.channel ?pair) i)"]
      True
    show ?thesis by (simp add: probeCase_def Let_def setChan_def)
  next
    case nr: False
    show ?thesis
    proof (cases "sendFunc ?pair")
      case True
      with assms nr have "\<not> canSend (selectCase.channel ?pair) w"
        "\<not> channelImpl.closed (chans w (selectCase.channel ?pair))"
        by (simp_all add: caseReady_def casePanics_def)
      from sendAsyncImpl_cannot [OF this, of "sendValue ?pair" "Some (sendValue ?pair, SelectSend k i)"]
      obtain w1 where "sendAsyncImpl (sendValue ?pair) (Some (sendValue ?pair, SelectSend k i))
          (selectCase.channel ?pair) w = (Inr False, w1)" "sels w1 = sels w"
        by (cases "sendAsyncImpl (sendValue ?pair) (Some (sendValue ?pair, SelectSend k i))
          (selectCase.channel ?pair) w") auto
      with True nr show ?thesis by (simp add: probeCase_def Let_def)
    next
      case False
      show ?thesis
      proof (cases "futureFunc ?pair")
        case ff: True
        with assms nr False have v: "future ?pair < length (futs w)"
          and nd: "\<not> channelDone (future ?pair) w"
          by (auto simp: caseReady_def casePanics_def)
        let ?ch = "futureImpl.channel (futs w ! future ?pair)"
        obtain x ok m w1 where
          ra: "receiveAsyncImpl (Some (SelectFuture k s i)) ?ch w = ((x, ok, m), w1)"
          by (cases "receiveAsyncImpl (Some (SelectFuture k s i)) ?ch w") auto
        have m: "m"
        proof (rule ccontr)
          assume "\<not> m"
          with ra have "held (chans w ?ch) = [] \<and> channelImpl.closed (chans w ?ch)"
            by (auto simp: receiveAsyncImpl_def Let_def held_def
                split: option.splits list.splits if_splits prod.splits)
          with nd show False by (simp add: channelDone_def)
        qed
        from sels_receiveAsyncImpl [of "Some (SelectFuture k s i)" ?ch w] ra
        have "sels w1 = sels w" by simp
        with ra m ff nr False v show ?thesis by (simp add: probeCase_def Let_def GetAsync_def)
      next
        case nf: False
        with nr False show ?thesis by (simp add: probeCase_def Let_def)
      qed
    qed
  qed
qed

text \<open>The loop over the cases.\<close>

lemma stateAt_Suc: "stateAt k s (Suc i) w = snd (probeCase k s i (stateAt k s i w))"
  by (simp add: stateAt_def)

lemma probeCases_from:
  assumes "m \<le> n" "\<forall>j<m. fst (probeCase k s j (stateAt k s j w)) = Passes"
  shows "probeCases k s [0..<n] w = probeCases k s [m..<n] (stateAt k s m w)"
  using assms
proof (induction m)
  case 0
  then show ?case by (simp add: stateAt_def)
next
  case (Suc m)
  then have ih: "probeCases k s [0..<n] w = probeCases k s [m..<n] (stateAt k s m w)" by simp
  from Suc.prems have p: "fst (probeCase k s m (stateAt k s m w)) = Passes" by simp
  from Suc.prems have "[m..<n] = m # [Suc m..<n]" by (simp add: upt_conv_Cons)
  with ih p show ?case
    by (cases "probeCase k s m (stateAt k s m w)") (simp add: stateAt_Suc)
qed

lemma probeCases_all:
  assumes "\<forall>j<n. fst (probeCase k s j (stateAt k s j w)) = Passes"
  shows "probeCases k s [0..<n] w = (Passes, stateAt k s n w)"
  using probeCases_from [OF le_refl assms] by simp

lemma probeCases_first:
  assumes "i < n" "\<forall>j<i. fst (probeCase k s j (stateAt k s j w)) = Passes"
    "fst (probeCase k s i (stateAt k s i w)) \<noteq> Passes"
  shows "probeCases k s [0..<n] w = probeCase k s i (stateAt k s i w)"
proof -
  from assms(1) have "i \<le> n" by simp
  from probeCases_from [OF this assms(2)]
  have "probeCases k s [0..<n] w = probeCases k s [i..<n] (stateAt k s i w)" .
  moreover from assms(1) have "[i..<n] = i # [Suc i..<n]" by (simp add: upt_conv_Cons)
  ultimately show ?thesis using assms(3)
    by (cases "probeCase k s i (stateAt k s i w)") (auto split: probe.splits)
qed

lemma passes_upto:
  assumes "\<forall>j<m. \<not> caseReady (cases (sels w s) ! j) (stateAt k s j w) \<and>
      \<not> casePanics (cases (sels w s) ! j) (stateAt k s j w)"
  shows "sels (stateAt k s m w) = sels w \<and>
    (\<forall>j<m. fst (probeCase k s j (stateAt k s j w)) = Passes)"
  using assms
proof (induction m)
  case 0
  then show ?case by (simp add: stateAt_def)
next
  case (Suc m)
  then have ih: "sels (stateAt k s m w) = sels w"
    "\<forall>j<m. fst (probeCase k s j (stateAt k s j w)) = Passes" by simp_all
  from Suc.prems ih(1) have
    "\<not> caseReady (cases (sels (stateAt k s m w) s) ! m) (stateAt k s m w)"
    "\<not> casePanics (cases (sels (stateAt k s m w) s) ! m) (stateAt k s m w)" by simp_all
  from probeCase_passes [OF this, of k] ih show ?case
    by (auto simp: stateAt_Suc less_Suc_eq)
qed

lemma Select_loop_outcome:
  "fst (Select_loop k w) \<noteq> Returned DefaultFired \<and> fst (Select_loop k w) \<noteq> Panicked e \<and>
   (fst (Select_loop k w) = Yielded k' \<longrightarrow> k' = k)"
  by (simp add: Select_loop_def split: option.splits readyBranch.splits)

lemma defaultFunc_entered: "sels (entered w) = sels w" "frameCount (entered w) = frameCount w + 1"
  "chans (entered w) = chans w" "futs (entered w) = futs w"
  "selectFrames (entered w) = (selectFrames w)(frameCount w := None)"
  by (simp_all add: entered_def)

lemma Select_unfold:
  "Select s w =
     (case probeCases (frameCount w) s [0..<length (cases (sels w s))] (entered w) of
        (Fires b, w1) \<Rightarrow> (Returned b, w1)
      | (Panics e, w1) \<Rightarrow> (Panicked e, w1)
      | (Passes, w1) \<Rightarrow>
          if defaultFunc (sels w1 s) then (Returned DefaultFired, w1)
          else Select_loop (frameCount w) w1)"
  by (simp add: Select_def Let_def entered_def)

lemma Select_decided:
  assumes "i < length (cases (sels w s))" "nonePending s i w"
  shows "(panicsAt s i w \<longrightarrow> (\<exists>e. fst (Select s w) = Panicked e)) \<and>
    (readyAt s i w \<longrightarrow> (\<exists>b. fst (Select s w) = Returned b \<and> firedCase b = Some i))"
proof -
  let ?k = "frameCount w" and ?w0 = "entered w"
  from assms(2) have "\<forall>j<i. \<not> caseReady (cases (sels ?w0 s) ! j) (stateAt ?k s j ?w0) \<and>
      \<not> casePanics (cases (sels ?w0 s) ! j) (stateAt ?k s j ?w0)"
    by (simp add: nonePending_def readyAt_def panicsAt_def defaultFunc_entered)
  from passes_upto [OF this] have se: "sels (stateAt ?k s i ?w0) = sels w"
    and ps: "\<forall>j<i. fst (probeCase ?k s j (stateAt ?k s j ?w0)) = Passes"
    by (simp_all add: defaultFunc_entered)
  show ?thesis
  proof (intro conjI impI)
    assume "panicsAt s i w"
    then have "casePanics (cases (sels (stateAt ?k s i ?w0) s) ! i) (stateAt ?k s i ?w0)"
      by (simp add: panicsAt_def se)
    from probeCase_panics [OF this, of ?k] obtain e where
      e: "fst (probeCase ?k s i (stateAt ?k s i ?w0)) = Panics e" by blast
    then have "fst (probeCase ?k s i (stateAt ?k s i ?w0)) \<noteq> Passes" by simp
    from probeCases_first [OF assms(1) ps this] e
    have "fst (probeCases ?k s [0..<length (cases (sels w s))] ?w0) = Panics e" by simp
    then show "\<exists>e. fst (Select s w) = Panicked e"
      by (cases "probeCases ?k s [0..<length (cases (sels w s))] ?w0") (simp add: Select_unfold)
  next
    assume "readyAt s i w"
    then have "caseReady (cases (sels (stateAt ?k s i ?w0) s) ! i) (stateAt ?k s i ?w0)"
      by (simp add: readyAt_def se)
    from probeCase_fires [OF this, of ?k] obtain b where
      b: "fst (probeCase ?k s i (stateAt ?k s i ?w0)) = Fires b" "firedCase b = Some i" by blast
    then have "fst (probeCase ?k s i (stateAt ?k s i ?w0)) \<noteq> Passes" by simp
    from probeCases_first [OF assms(1) ps this] b
    have "fst (probeCases ?k s [0..<length (cases (sels w s))] ?w0) = Fires b" by simp
    then have "fst (Select s w) = Returned b"
      by (cases "probeCases ?k s [0..<length (cases (sels w s))] ?w0") (simp add: Select_unfold)
    with b(2) show "\<exists>b. fst (Select s w) = Returned b \<and> firedCase b = Some i" by blast
  qed
qed

lemma Select_undecided:
  assumes "nonePending s (length (cases (sels w s))) w"
  shows "Select s w =
    (if defaultFunc (sels w s)
     then (Returned DefaultFired, stateAt (frameCount w) s (length (cases (sels w s))) (entered w))
     else Select_loop (frameCount w)
       (stateAt (frameCount w) s (length (cases (sels w s))) (entered w)))"
proof -
  let ?k = "frameCount w" and ?w0 = "entered w" and ?n = "length (cases (sels w s))"
  from assms have "\<forall>j<?n. \<not> caseReady (cases (sels ?w0 s) ! j) (stateAt ?k s j ?w0) \<and>
      \<not> casePanics (cases (sels ?w0 s) ! j) (stateAt ?k s j ?w0)"
    by (simp add: nonePending_def readyAt_def panicsAt_def defaultFunc_entered)
  from passes_upto [OF this] have se: "sels (stateAt ?k s ?n ?w0) = sels w"
    and ps: "\<forall>j<?n. fst (probeCase ?k s j (stateAt ?k s j ?w0)) = Passes"
    by (simp_all add: defaultFunc_entered)
  from probeCases_all [OF ps] se show ?thesis by (simp add: Select_unfold)
qed

lemma first_decided:
  assumes "\<not> nonePending s n w"
  shows "\<exists>i<n. nonePending s i w \<and> (readyAt s i w \<or> panicsAt s i w)"
proof -
  let ?P = "\<lambda>j. readyAt s j w \<or> panicsAt s j w"
  from assms obtain j where j: "j < n" "?P j" by (auto simp: nonePending_def)
  define i where "i = (LEAST j. ?P j)"
  from j(2) have pi: "?P i" unfolding i_def by (rule LeastI)
  have "i \<le> j" unfolding i_def using j(2) by (rule Least_le)
  with j(1) have "i < n" by simp
  moreover have "nonePending s i w"
    unfolding nonePending_def
  proof (intro allI impI)
    fix l assume "l < i"
    then have "\<not> ?P l" unfolding i_def by (rule not_less_Least)
    then show "\<not> readyAt s l w \<and> \<not> panicsAt s l w" by simp
  qed
  ultimately show ?thesis using pi by blast
qed

lemma ready_not_panics: "caseReady pair w \<Longrightarrow> \<not> casePanics pair w"
  by (auto simp: caseReady_def casePanics_def canSend_def split: if_splits)

text \<open>
  Claim C2, as the code has it, for a call of \<^verbatim>\<open>Select\<close> that ends with \<open>r\<close>. The cases are
  probed in the order in which they were added. The first case that, in the memory in
  which it is probed, is ready or makes the call panic decides the call: if it is
  ready, its function is called and \<^verbatim>\<open>Select\<close> returns without yielding; if it is a send
  case on a closed channel (or a future case that panics), \<^verbatim>\<open>Select\<close> panics and neither
  a later case nor the default is reached. The default function is called exactly when
  it is set and no case is ready or panics when probed; \<^verbatim>\<open>Select\<close> panics exactly when
  a case panics before any case is ready; and it yields only when there is no default
  and no case is ready or panics when probed, in which case it goes on with the loop
  that waits for \<^verbatim>\<open>readyBranch\<close>.
\<close>

theorem Select_earliest_ready:
  assumes "Select s w = (r, w')"
  shows "(\<forall>i < length (cases (sels w s)). nonePending s i w \<longrightarrow>
        (panicsAt s i w \<longrightarrow> (\<exists>e. r = Panicked e)) \<and>
        (readyAt s i w \<longrightarrow> (\<exists>b. r = Returned b \<and> firedCase b = Some i))) \<and>
    (r = Returned DefaultFired \<longleftrightarrow>
       defaultFunc (sels w s) \<and> nonePending s (length (cases (sels w s))) w) \<and>
    ((\<exists>e. r = Panicked e) \<longleftrightarrow>
       (\<exists>i < length (cases (sels w s)). nonePending s i w \<and> panicsAt s i w)) \<and>
    (\<forall>k. r = Yielded k \<longrightarrow>
       k = frameCount w \<and> \<not> defaultFunc (sels w s) \<and>
       nonePending s (length (cases (sels w s))) w) \<and>
    (nonePending s (length (cases (sels w s))) w \<and> \<not> defaultFunc (sels w s) \<longrightarrow>
       (r, w') = Select_loop (frameCount w)
         (stateAt (frameCount w) s (length (cases (sels w s))) (entered w)))"
proof -
  let ?n = "length (cases (sels w s))"
  from assms have r: "fst (Select s w) = r" by simp
  have dec: "\<And>i. i < ?n \<Longrightarrow> nonePending s i w \<Longrightarrow>
      (panicsAt s i w \<longrightarrow> (\<exists>e. r = Panicked e)) \<and>
      (readyAt s i w \<longrightarrow> (\<exists>b. r = Returned b \<and> firedCase b = Some i))"
    using Select_decided [of _ w s] r by simp
  have und: "nonePending s ?n w \<Longrightarrow>
      r = (if defaultFunc (sels w s) then Returned DefaultFired
           else fst (Select_loop (frameCount w)
             (stateAt (frameCount w) s ?n (entered w))))"
    using Select_undecided [of s w] r by (auto split: if_splits)
  have excl: "\<And>i. \<not> (readyAt s i w \<and> panicsAt s i w)"
    using ready_not_panics by (auto simp: readyAt_def panicsAt_def)
  show ?thesis
  proof (intro conjI)
    show "\<forall>i < ?n. nonePending s i w \<longrightarrow>
        (panicsAt s i w \<longrightarrow> (\<exists>e. r = Panicked e)) \<and>
        (readyAt s i w \<longrightarrow> (\<exists>b. r = Returned b \<and> firedCase b = Some i))"
      using dec by blast
  next
    show "r = Returned DefaultFired \<longleftrightarrow> defaultFunc (sels w s) \<and> nonePending s ?n w"
    proof (cases "nonePending s ?n w")
      case True
      from und [OF True] Select_loop_outcome [of "frameCount w"
          "stateAt (frameCount w) s ?n (entered w)"] True
      show ?thesis by (auto split: if_splits)
    next
      case False
      from first_decided [OF False] obtain i where
        i: "i < ?n" "nonePending s i w" "readyAt s i w \<or> panicsAt s i w" by blast
      from dec [OF i(1,2)] i(3) have "r \<noteq> Returned DefaultFired" by auto
      with False show ?thesis by simp
    qed
  next
    show "(\<exists>e. r = Panicked e) \<longleftrightarrow> (\<exists>i < ?n. nonePending s i w \<and> panicsAt s i w)"
    proof (cases "nonePending s ?n w")
      case True
      then have "\<not> (\<exists>i < ?n. nonePending s i w \<and> panicsAt s i w)"
        by (auto simp: nonePending_def)
      moreover from und [OF True] Select_loop_outcome [of "frameCount w"
          "stateAt (frameCount w) s ?n (entered w)"]
      have "\<not> (\<exists>e. r = Panicked e)" by (auto split: if_splits)
      ultimately show ?thesis by simp
    next
      case False
      from first_decided [OF False] obtain i where
        i: "i < ?n" "nonePending s i w" "readyAt s i w \<or> panicsAt s i w" by blast
      show ?thesis
      proof
        assume "\<exists>e. r = Panicked e"
        with dec [OF i(1,2)] i(3) have "panicsAt s i w" by auto
        with i show "\<exists>i < ?n. nonePending s i w \<and> panicsAt s i w" by blast
      next
        assume "\<exists>i < ?n. nonePending s i w \<and> panicsAt s i w"
        with dec show "\<exists>e. r = Panicked e" by blast
      qed
    qed
  next
    show "\<forall>k. r = Yielded k \<longrightarrow>
       k = frameCount w \<and> \<not> defaultFunc (sels w s) \<and> nonePending s ?n w"
    proof (intro allI impI)
      fix k assume y: "r = Yielded k"
      have np: "nonePending s ?n w"
      proof (rule ccontr)
        assume "\<not> nonePending s ?n w"
        from first_decided [OF this] obtain i where
          i: "i < ?n" "nonePending s i w" "readyAt s i w \<or> panicsAt s i w" by blast
        from dec [OF i(1,2)] i(3) y show False by auto
      qed
      from und [OF np] y Select_loop_outcome [of "frameCount w"
          "stateAt (frameCount w) s ?n (entered w)" _ k]
      show "k = frameCount w \<and> \<not> defaultFunc (sels w s) \<and> nonePending s ?n w"
        using np by (auto split: if_splits)
    qed
  next
    show "nonePending s ?n w \<and> \<not> defaultFunc (sels w s) \<longrightarrow>
       (r, w') = Select_loop (frameCount w) (stateAt (frameCount w) s ?n (entered w))"
      using Select_undecided [of s w] assms by simp
  qed
qed

lemma threeChannels_eval:
  "chans threeChannels 0 = \<lparr>channelImpl.name = Numbered 1, size' = 0, buffer = [],
     blockedSends = [], blockedReceives = [], channelImpl.closed = False, recValue = None\<rparr>"
  "chans threeChannels (Suc 0) = \<lparr>channelImpl.name = Named [], size' = 1, buffer = [Obj ''a''],
     blockedSends = [], blockedReceives = [], channelImpl.closed = False, recValue = None\<rparr>"
  "chans threeChannels 2 = \<lparr>channelImpl.name = Numbered 2, size' = 0, buffer = [],
     blockedSends = [], blockedReceives = [], channelImpl.closed = True, recValue = None\<rparr>"
  "frameCount threeChannels = 0" "selectFrames threeChannels = (\<lambda>k. None)"
  "selCount threeChannels = 0" "futs threeChannels = []"
  by (simp_all add: threeChannels_def Close_def Let_def SendAsync_def sendAsyncImpl_def
      NewChannel_def NewBufferedChannel_def newChannel_def setChan_def emptyWorld_def)

lemma threeReceives_eval:
  "sels threeReceives 0 =
     \<lparr>selectorImpl.name = Numbered 1,
      cases =
        [\<lparr>selectCase.channel = 0, receiveFunc = True, sendFunc = False, sendValue = Nil,
          future = 0, futureFunc = False\<rparr>,
         \<lparr>selectCase.channel = 1, receiveFunc = True, sendFunc = False, sendValue = Nil,
          future = 0, futureFunc = False\<rparr>,
         \<lparr>selectCase.channel = 2, receiveFunc = True, sendFunc = False, sendValue = Nil,
          future = 0, futureFunc = False\<rparr>],
      defaultFunc = True\<rparr>"
  "chans threeReceives = chans threeChannels"
  "frameCount threeReceives = 0" "selectFrames threeReceives = (\<lambda>k. None)"
  by (simp_all add: threeReceives_def AddDefault_def AddReceive_def addCase_def NewSelector_def
      NewNamedSelector_def threeChannels_eval)

lemma stateAt_threeReceives:
  "stateAt 0 0 0 (entered threeReceives) = entered threeReceives"
  "chans (stateAt 0 0 (Suc 0) (entered threeReceives)) (Suc 0) = chans threeChannels (Suc 0)"
  by (simp_all add: stateAt_def probeCase_def Let_def receiveAsyncImpl_def setChan_def entered_def
      threeReceives_eval threeChannels_eval)

lemma threeReceives_ready:
  "nonePending 0 (Suc 0) threeReceives" "readyAt 0 (Suc 0) threeReceives"
  "caseReady (cases (sels threeReceives 0) ! 2) threeReceives"
  by (simp_all add: nonePending_def readyAt_def panicsAt_def caseReady_def casePanics_def
      canReceive_def held_def stateAt_threeReceives defaultFunc_entered threeReceives_eval
      threeChannels_eval)

lemma Select_threeReceives: "fst (Select 0 threeReceives) = Returned (ReceiveFired 1 True)"
  by (simp add: Select_def Let_def upt_rec probeCase_def receiveAsyncImpl_def setChan_def
      threeReceives_eval threeChannels_eval)

theorem Select_earliest_ready_witness:
  "1 < length (cases (sels threeReceives 0)) \<and> nonePending 0 1 threeReceives \<and>
   readyAt 0 1 threeReceives \<and> caseReady (cases (sels threeReceives 0) ! 2) threeReceives \<and>
   defaultFunc (sels threeReceives 0) \<and>
   fst (Select 0 threeReceives) = Returned (ReceiveFired 1 True) \<and>
   firedCase (ReceiveFired 1 True) = Some 1"
  using Select_earliest_ready [of 0 threeReceives "fst (Select 0 threeReceives)"
      "snd (Select 0 threeReceives)"]
    threeReceives_ready Select_threeReceives
  by (simp add: threeReceives_eval)

lemma sendOnClosed_eval:
  "sels sendOnClosed 0 =
     \<lparr>selectorImpl.name = Numbered 1,
      cases =
        [\<lparr>selectCase.channel = 2, receiveFunc = False, sendFunc = True, sendValue = Obj ''b'',
          future = 0, futureFunc = False\<rparr>],
      defaultFunc = True\<rparr>"
  "chans sendOnClosed = chans threeChannels"
  "frameCount sendOnClosed = 0" "selectFrames sendOnClosed = (\<lambda>k. None)"
  by (simp_all add: sendOnClosed_def AddDefault_def AddSend_def addCase_def NewSelector_def
      NewNamedSelector_def threeChannels_eval)

text \<open>
  Claim C2 as it is stated fails for a selector whose only case is a send on a closed
  channel and which has a default: no case is ready, and yet the default does not
  fire, since \<^verbatim>\<open>Select\<close> panics.
\<close>

theorem Select_earliest_ready_counterexample:
  "length (cases (sels sendOnClosed 0)) = 1 \<and>
   \<not> caseReady (cases (sels sendOnClosed 0) ! 0) sendOnClosed \<and>
   \<not> readyAt 0 0 sendOnClosed \<and>
   defaultFunc (sels sendOnClosed 0) \<and>
   fst (Select 0 sendOnClosed) = Panicked ''Closed channel''"
  by (simp add: readyAt_def caseReady_def canSend_def stateAt_def entered_def Select_def Let_def
      upt_rec probeCase_def sendAsyncImpl_def sendOnClosed_eval threeChannels_eval)

section \<open>Signals: the check for unhandled signals\<close>

text \<open>
  What the check keeps: when no sender is parked on the signal channels, every channel
  holds the same values after \<^verbatim>\<open>getUnhandledSignals\<close> as before, the first of them now
  in \<^verbatim>\<open>recValue\<close>.
\<close>

lemma peekSignal_held:
  assumes "blockedSends (chans (snd uw) (snd kc)) = []"
  shows "held (chans (snd (peekSignal kc uw)) c) = held (chans (snd uw) c) \<and>
    blockedSends (chans (snd (peekSignal kc uw)) c) = blockedSends (chans (snd uw) c)"
  using assms
  by (cases "recValue (chans (snd uw) (snd kc))"; cases "buffer (chans (snd uw) (snd kc))")
    (auto simp: peekSignal_def receiveAsyncImpl_def Let_def held_def setChan_def)

lemma fold_peekSignal_held:
  assumes "\<forall>kc \<in> set entries. blockedSends (chans (snd uw) (snd kc)) = []"
  shows "held (chans (snd (fold peekSignal entries uw)) c) = held (chans (snd uw) c)"
  using assms
proof (induction entries arbitrary: uw)
  case Nil
  then show ?case by simp
next
  case (Cons kc entries)
  then have b: "blockedSends (chans (snd uw) (snd kc)) = []" by simp
  have "\<forall>x \<in> set entries. blockedSends (chans (snd (peekSignal kc uw)) (snd x)) = []"
    using Cons.prems peekSignal_held [OF b] by simp
  from Cons.IH [OF this] peekSignal_held [OF b, of c] show ?case by simp
qed

lemma getUnhandledSignals_held:
  assumes "\<forall>kc \<in> set entries. blockedSends (chans w (snd kc)) = []"
  shows "held (chans (snd (getUnhandledSignals entries w)) c) = held (chans w c)"
  using fold_peekSignal_held [of entries "([], w)" c] assms
  by (simp add: getUnhandledSignals_def)

lemmas pump_defs = executeDispatcher_def ExecuteUntilAllBlocked_def passes.simps pass_def
  eachCoroutine.simps call_def resumeRoutine_def spawn_def newCoroutine_def newNamedCoroutine_def
  newState_def Let_def

lemmas heap_defs = Receive_def receiveAsyncImpl_def Receive_loop_def Select_def Select_loop_def
  probeCase_def setChan_def assignValue_def decodeAndAssignValue_def decodesAll_def
  sendAsyncImpl_def SendAsync_def checkUnhandledSigFn_def getUnhandledSignals_def peekSignal_def

lemma startMemory_eval:
  "resultPointer startMemory = None"
  "observed startMemory = []"
  "signalChannels startMemory = [(''stop'', 0), (''data'', 1)]"
  "chans (heap startMemory) 0 = \<lparr>channelImpl.name = Named [], size' = 100000, buffer = [],
       blockedSends = [], blockedReceives = [], channelImpl.closed = False, recValue = None\<rparr>"
  "chans (heap startMemory) (Suc 0) = \<lparr>channelImpl.name = Named [], size' = 100000, buffer = [],
       blockedSends = [], blockedReceives = [], channelImpl.closed = False, recValue = None\<rparr>"
  "sels (heap startMemory) 0 = \<lparr>selectorImpl.name = Numbered 1,
       cases = [\<lparr>selectCase.channel = 1, receiveFunc = True, sendFunc = False, sendValue = Nil,
          future = 0, futureFunc = False\<rparr>], defaultFunc = False\<rparr>"
  "frameCount (heap startMemory) = 0"
  by (simp_all add: startMemory_def getSignalChannel_def NewBufferedChannel_def newChannel_def
      setChan_def emptyWorld_def defaultSignalChannelSize_def AddReceive_def addCase_def
      NewSelector_def NewNamedSelector_def Let_def)

lemma firstTask:
  assumes "resultPointer m = None"
    "observed m = []"
    "signalChannels m = [(''stop'', 0), (''data'', 1)]"
    "chans (heap m) 0 = \<lparr>channelImpl.name = Named [], size' = 100000, buffer = [],
       blockedSends = [], blockedReceives = [], channelImpl.closed = False, recValue = None\<rparr>"
    "chans (heap m) (Suc 0) = \<lparr>channelImpl.name = Named [], size' = 100000, buffer = [],
       blockedSends = [], blockedReceives = [], channelImpl.closed = False, recValue = None\<rparr>"
    "sels (heap m) 0 = \<lparr>selectorImpl.name = Numbered 1,
       cases = [\<lparr>selectCase.channel = 1, receiveFunc = True, sendFunc = False, sendValue = Nil,
          future = 0, futureFunc = False\<rparr>], defaultFunc = False\<rparr>"
    "frameCount (heap m) = 0"
  shows "\<exists>m'. executeDispatcher resumeRoutine ranged
      (\<lparr>sequence = 1, channelSequence = 0, selectorSequence = 0,
       coroutines = [\<lparr>coroutineState.name = Numbered 1, keptBlocked = False,
           coroutineState.closed = False, panicError = None, goroutine = rootFunction\<rparr>],
       executing = False, closed = False\<rparr>, m) =
      Some (Inr ([], \<lparr>sequence = 2, channelSequence = 0, selectorSequence = 0,
       coroutines = [\<lparr>coroutineState.name = Numbered 1, keptBlocked = True,
           coroutineState.closed = False, panicError = None, goroutine = InReceive 0 (PanicWith ''stopped'')\<rparr>,
         \<lparr>coroutineState.name = Numbered 2, keptBlocked = True,
           coroutineState.closed = False, panicError = None, goroutine = InSelect 1 (ReceiveThen 1 (ReceiveThen 1 Finish))\<rparr>],
       executing = False, closed = False\<rparr>, m')) \<and>
    resultPointer m' = None \<and>
    observed m' = [] \<and>
    signalChannels m' = [(''stop'', 0), (''data'', 1)] \<and>
    chans (heap m') 0 = \<lparr>channelImpl.name = Named [], size' = 100000, buffer = [],
       blockedSends = [], blockedReceives = [ReceiveLocals 0], channelImpl.closed = False, recValue = None\<rparr> \<and>
    chans (heap m') (Suc 0) = \<lparr>channelImpl.name = Named [], size' = 100000, buffer = [],
       blockedSends = [], blockedReceives = [SelectReceive 1 1 0], channelImpl.closed = False, recValue = None\<rparr> \<and>
    selectFrames (heap m') (Suc 0) = None \<and>
    receiveFrames (heap m') 0 = \<lparr>hasResult = False, result = Nil, more' = True\<rparr> \<and>
    frameCount (heap m') = 2"
  using assms
  by (simp add: pump_defs heap_defs rootFunction_def listener_def)

lemma signals:
  assumes "resultPointer m = None"
    "observed m = []"
    "signalChannels m = [(''stop'', 0), (''data'', 1)]"
    "chans (heap m) 0 = \<lparr>channelImpl.name = Named [], size' = 100000, buffer = [],
       blockedSends = [], blockedReceives = [ReceiveLocals 0], channelImpl.closed = False, recValue = None\<rparr>"
    "chans (heap m) (Suc 0) = \<lparr>channelImpl.name = Named [], size' = 100000, buffer = [],
       blockedSends = [], blockedReceives = [SelectReceive 1 1 0], channelImpl.closed = False, recValue = None\<rparr>"
    "selectFrames (heap m) (Suc 0) = None"
    "receiveFrames (heap m) 0 = \<lparr>hasResult = False, result = Nil, more' = True\<rparr>"
    "frameCount (heap m) = 2"
  shows "fst (signalHandler ''data'' [1] m) = Returned () \<and>
    fst (signalHandler ''data'' [2] (snd (signalHandler ''data'' [1] m))) = Returned () \<and>
    (\<exists>m'. signalHandler ''stop'' [0]
        (snd (signalHandler ''data'' [2]
          (snd (signalHandler ''data'' [1] m)))) = (Returned (), m') \<and>
    resultPointer m' = None \<and>
    observed m' = [] \<and>
    signalChannels m' = [(''stop'', 0), (''data'', 1)] \<and>
    chans (heap m') 0 = \<lparr>channelImpl.name = Named [], size' = 100000, buffer = [],
       blockedSends = [], blockedReceives = [], channelImpl.closed = False, recValue = None\<rparr> \<and>
    chans (heap m') (Suc 0) = \<lparr>channelImpl.name = Named [], size' = 100000, buffer = [Bytes [2]],
       blockedSends = [], blockedReceives = [], channelImpl.closed = False, recValue = None\<rparr> \<and>
    selectFrames (heap m') (Suc 0) = Some (ReceiveBranch 1 (Bytes [1]) True 0) \<and>
    receiveFrames (heap m') 0 = \<lparr>hasResult = True, result = Bytes [0], more' = True\<rparr> \<and>
    frameCount (heap m') = 2)"
  using assms
  by (simp add: signalHandler_def getSignalChannel_def heap_defs runReceiveCallback_def)

lemma secondTask:
  assumes "resultPointer m = None"
    "observed m = []"
    "signalChannels m = [(''stop'', 0), (''data'', 1)]"
    "chans (heap m) 0 = \<lparr>channelImpl.name = Named [], size' = 100000, buffer = [],
       blockedSends = [], blockedReceives = [], channelImpl.closed = False, recValue = None\<rparr>"
    "chans (heap m) (Suc 0) = \<lparr>channelImpl.name = Named [], size' = 100000, buffer = [Bytes [2]],
       blockedSends = [], blockedReceives = [], channelImpl.closed = False, recValue = None\<rparr>"
    "selectFrames (heap m) (Suc 0) = Some (ReceiveBranch 1 (Bytes [1]) True 0)"
    "receiveFrames (heap m) 0 = \<lparr>hasResult = True, result = Bytes [0], more' = True\<rparr>"
    "frameCount (heap m) = 2"
  shows "\<exists>m'. executeDispatcher resumeRoutine (\<lambda>es. es)
      (\<lparr>sequence = 2, channelSequence = 0, selectorSequence = 0,
       coroutines = [\<lparr>coroutineState.name = Numbered 1, keptBlocked = True,
           coroutineState.closed = False, panicError = None, goroutine = InReceive 0 (PanicWith ''stopped'')\<rparr>,
         \<lparr>coroutineState.name = Numbered 2, keptBlocked = True,
           coroutineState.closed = False, panicError = None, goroutine = InSelect 1 (ReceiveThen 1 (ReceiveThen 1 Finish))\<rparr>],
       executing = False, closed = False\<rparr>, m) =
      Some (Inr ([LogError ''stopped'', LogWarn [''data'']], \<lparr>sequence = 2, channelSequence = 0, selectorSequence = 0,
       coroutines = [\<lparr>coroutineState.name = Numbered 2, keptBlocked = True,
           coroutineState.closed = False, panicError = None, goroutine = InSelect 1 (ReceiveThen 1 (ReceiveThen 1 Finish))\<rparr>],
       executing = False, closed = False\<rparr>, m')) \<and>
    resultPointer m' = None \<and>
    observed m' = [DecodedFrom [0]] \<and>
    signalChannels m' = [(''stop'', 0), (''data'', 1)] \<and>
    chans (heap m') (Suc 0) = \<lparr>channelImpl.name = Named [], size' = 100000, buffer = [],
       blockedSends = [], blockedReceives = [], channelImpl.closed = False, recValue = Some (Bytes [2])\<rparr> \<and>
    selectFrames (heap m') (Suc 0) = Some (ReceiveBranch 1 (Bytes [1]) True 0) \<and>
    frameCount (heap m') = 2"
  using assms
  by (simp add: pump_defs heap_defs)

lemma secondPump:
  assumes "resultPointer m = None"
    "observed m = []"
    "signalChannels m = [(''stop'', 0), (''data'', 1)]"
    "chans (heap m) 0 = \<lparr>channelImpl.name = Named [], size' = 100000, buffer = [],
       blockedSends = [], blockedReceives = [], channelImpl.closed = False, recValue = None\<rparr>"
    "chans (heap m) (Suc 0) = \<lparr>channelImpl.name = Named [], size' = 100000, buffer = [Bytes [2]],
       blockedSends = [], blockedReceives = [], channelImpl.closed = False, recValue = None\<rparr>"
    "selectFrames (heap m) (Suc 0) = Some (ReceiveBranch 1 (Bytes [1]) True 0)"
    "receiveFrames (heap m) 0 = \<lparr>hasResult = True, result = Bytes [0], more' = True\<rparr>"
    "frameCount (heap m) = 2"
  shows "\<exists>m'. ExecuteUntilAllBlocked resumeRoutine
      (\<lparr>sequence = 2, channelSequence = 0, selectorSequence = 0,
       coroutines = [\<lparr>coroutineState.name = Numbered 1, keptBlocked = True,
           coroutineState.closed = False, panicError = None, goroutine = InReceive 0 (PanicWith ''stopped'')\<rparr>,
         \<lparr>coroutineState.name = Numbered 2, keptBlocked = True,
           coroutineState.closed = False, panicError = None, goroutine = InSelect 1 (ReceiveThen 1 (ReceiveThen 1 Finish))\<rparr>],
       executing = False, closed = False\<rparr>, m) =
      Some (Inr (Some ''stopped'', \<lparr>sequence = 2, channelSequence = 0, selectorSequence = 0,
       coroutines = [\<lparr>coroutineState.name = Numbered 2, keptBlocked = True,
           coroutineState.closed = False, panicError = None, goroutine = InSelect 1 (ReceiveThen 1 (ReceiveThen 1 Finish))\<rparr>],
       executing = False, closed = False\<rparr>, m')) \<and>
    resultPointer m' = None \<and>
    observed m' = [DecodedFrom [0]] \<and>
    signalChannels m' = [(''stop'', 0), (''data'', 1)] \<and>
    chans (heap m') (Suc 0) = \<lparr>channelImpl.name = Named [], size' = 100000, buffer = [Bytes [2]],
       blockedSends = [], blockedReceives = [], channelImpl.closed = False, recValue = None\<rparr> \<and>
    selectFrames (heap m') (Suc 0) = Some (ReceiveBranch 1 (Bytes [1]) True 0) \<and>
    frameCount (heap m') = 2"
  using assms
  by (simp add: pump_defs heap_defs)

lemma thirdTask:
  assumes "resultPointer m = None"
    "observed m = [DecodedFrom [0]]"
    "signalChannels m = [(''stop'', 0), (''data'', 1)]"
    "chans (heap m) (Suc 0) = \<lparr>channelImpl.name = Named [], size' = 100000, buffer = [],
       blockedSends = [], blockedReceives = [], channelImpl.closed = False, recValue = Some (Bytes [2])\<rparr>"
    "selectFrames (heap m) (Suc 0) = Some (ReceiveBranch 1 (Bytes [1]) True 0)"
    "frameCount (heap m) = 2"
  shows "\<exists>m'. executeDispatcher resumeRoutine ranged
      (\<lparr>sequence = 2, channelSequence = 0, selectorSequence = 0,
       coroutines = [\<lparr>coroutineState.name = Numbered 2, keptBlocked = True,
           coroutineState.closed = False, panicError = None, goroutine = InSelect 1 (ReceiveThen 1 (ReceiveThen 1 Finish))\<rparr>],
       executing = False, closed = False\<rparr>, m) =
      Some (Inr ([], \<lparr>sequence = 2, channelSequence = 0, selectorSequence = 0,
       coroutines = [\<lparr>coroutineState.name = Numbered 2, keptBlocked = True,
           coroutineState.closed = False, panicError = None, goroutine = InReceive 3 Finish\<rparr>],
       executing = False, closed = False\<rparr>, m')) \<and>
    observed m' = [DecodedFrom [0], DecodedFrom [1]] \<and>
    chans (heap m') (Suc 0) = \<lparr>channelImpl.name = Named [], size' = 100000, buffer = [],
       blockedSends = [], blockedReceives = [ReceiveLocals 3], channelImpl.closed = False, recValue = None\<rparr>"
  using assms
  by (simp add: pump_defs heap_defs)

lemma thirdTaskUnchecked:
  assumes "resultPointer m = None"
    "observed m = [DecodedFrom [0]]"
    "signalChannels m = [(''stop'', 0), (''data'', 1)]"
    "chans (heap m) (Suc 0) = \<lparr>channelImpl.name = Named [], size' = 100000, buffer = [Bytes [2]],
       blockedSends = [], blockedReceives = [], channelImpl.closed = False, recValue = None\<rparr>"
    "selectFrames (heap m) (Suc 0) = Some (ReceiveBranch 1 (Bytes [1]) True 0)"
    "frameCount (heap m) = 2"
  shows "\<exists>m'. executeDispatcher resumeRoutine ranged
      (\<lparr>sequence = 2, channelSequence = 0, selectorSequence = 0,
       coroutines = [\<lparr>coroutineState.name = Numbered 2, keptBlocked = True,
           coroutineState.closed = False, panicError = None, goroutine = InSelect 1 (ReceiveThen 1 (ReceiveThen 1 Finish))\<rparr>],
       executing = False, closed = False\<rparr>, m) =
      Some (Inr ([], \<lparr>sequence = 2, channelSequence = 0, selectorSequence = 0,
       coroutines = [],
       executing = False, closed = False\<rparr>, m')) \<and>
    observed m' = [DecodedFrom [0], DecodedFrom [1], DecodedFrom [2]] \<and>
    chans (heap m') (Suc 0) = \<lparr>channelImpl.name = Named [], size' = 100000, buffer = [],
       blockedSends = [], blockedReceives = [], channelImpl.closed = False, recValue = None\<rparr>"
  using assms
  by (simp add: pump_defs heap_defs)

lemma started_eq:
  "started = (\<lparr>sequence = 1, channelSequence = 0, selectorSequence = 0,
       coroutines = [\<lparr>coroutineState.name = Numbered 1, keptBlocked = False,
           coroutineState.closed = False, panicError = None, goroutine = rootFunction\<rparr>],
       executing = False, closed = False\<rparr>, startMemory)"
  by (simp add: started_def newCoroutine_def newNamedCoroutine_def newState_def)

lemma afterFirstTask_eval:
  "executeDispatcher resumeRoutine (\<lambda>es. es) started = Some (Inr ([], afterFirstTask))"
  "fst afterFirstTask = \<lparr>sequence = 2, channelSequence = 0, selectorSequence = 0,
       coroutines = [\<lparr>coroutineState.name = Numbered 1, keptBlocked = True,
           coroutineState.closed = False, panicError = None, goroutine = InReceive 0 (PanicWith ''stopped'')\<rparr>,
         \<lparr>coroutineState.name = Numbered 2, keptBlocked = True,
           coroutineState.closed = False, panicError = None, goroutine = InSelect 1 (ReceiveThen 1 (ReceiveThen 1 Finish))\<rparr>],
       executing = False, closed = False\<rparr>"
  "resultPointer (snd afterFirstTask) = None"
  "observed (snd afterFirstTask) = []"
  "signalChannels (snd afterFirstTask) = [(''stop'', 0), (''data'', 1)]"
  "chans (heap (snd afterFirstTask)) 0 = \<lparr>channelImpl.name = Named [], size' = 100000, buffer = [],
       blockedSends = [], blockedReceives = [ReceiveLocals 0], channelImpl.closed = False, recValue = None\<rparr>"
  "chans (heap (snd afterFirstTask)) (Suc 0) = \<lparr>channelImpl.name = Named [], size' = 100000, buffer = [],
       blockedSends = [], blockedReceives = [SelectReceive 1 1 0], channelImpl.closed = False, recValue = None\<rparr>"
  "selectFrames (heap (snd afterFirstTask)) (Suc 0) = None"
  "receiveFrames (heap (snd afterFirstTask)) 0 = \<lparr>hasResult = False, result = Nil, more' = True\<rparr>"
  "frameCount (heap (snd afterFirstTask)) = 2"
proof -
  from firstTask [OF startMemory_eval, of "\<lambda>es. es"] obtain m' where
    e: "executeDispatcher resumeRoutine (\<lambda>es. es)
      (\<lparr>sequence = 1, channelSequence = 0, selectorSequence = 0,
       coroutines = [\<lparr>coroutineState.name = Numbered 1, keptBlocked = False,
           coroutineState.closed = False, panicError = None, goroutine = rootFunction\<rparr>],
       executing = False, closed = False\<rparr>, startMemory) = Some (Inr ([], \<lparr>sequence = 2, channelSequence = 0, selectorSequence = 0,
       coroutines = [\<lparr>coroutineState.name = Numbered 1, keptBlocked = True,
           coroutineState.closed = False, panicError = None, goroutine = InReceive 0 (PanicWith ''stopped'')\<rparr>,
         \<lparr>coroutineState.name = Numbered 2, keptBlocked = True,
           coroutineState.closed = False, panicError = None, goroutine = InSelect 1 (ReceiveThen 1 (ReceiveThen 1 Finish))\<rparr>],
       executing = False, closed = False\<rparr>, m'))"
    and p: "resultPointer m' = None" "observed m' = []" "signalChannels m' = [(''stop'', 0), (''data'', 1)]" "chans (heap m') 0 = \<lparr>channelImpl.name = Named [], size' = 100000, buffer = [],
       blockedSends = [], blockedReceives = [ReceiveLocals 0], channelImpl.closed = False, recValue = None\<rparr>" "chans (heap m') (Suc 0) = \<lparr>channelImpl.name = Named [], size' = 100000, buffer = [],
       blockedSends = [], blockedReceives = [SelectReceive 1 1 0], channelImpl.closed = False, recValue = None\<rparr>" "selectFrames (heap m') (Suc 0) = None" "receiveFrames (heap m') 0 = \<lparr>hasResult = False, result = Nil, more' = True\<rparr>" "frameCount (heap m') = 2"
    by blast
  have a: "afterFirstTask = (\<lparr>sequence = 2, channelSequence = 0, selectorSequence = 0,
       coroutines = [\<lparr>coroutineState.name = Numbered 1, keptBlocked = True,
           coroutineState.closed = False, panicError = None, goroutine = InReceive 0 (PanicWith ''stopped'')\<rparr>,
         \<lparr>coroutineState.name = Numbered 2, keptBlocked = True,
           coroutineState.closed = False, panicError = None, goroutine = InSelect 1 (ReceiveThen 1 (ReceiveThen 1 Finish))\<rparr>],
       executing = False, closed = False\<rparr>, m')"
    using e by (simp add: afterFirstTask_def decisionTask_def started_eq)
  show "executeDispatcher resumeRoutine (\<lambda>es. es) started = Some (Inr ([], afterFirstTask))"
    unfolding a using e by (simp add: started_eq)
  show "fst afterFirstTask = \<lparr>sequence = 2, channelSequence = 0, selectorSequence = 0,
       coroutines = [\<lparr>coroutineState.name = Numbered 1, keptBlocked = True,
           coroutineState.closed = False, panicError = None, goroutine = InReceive 0 (PanicWith ''stopped'')\<rparr>,
         \<lparr>coroutineState.name = Numbered 2, keptBlocked = True,
           coroutineState.closed = False, panicError = None, goroutine = InSelect 1 (ReceiveThen 1 (ReceiveThen 1 Finish))\<rparr>],
       executing = False, closed = False\<rparr>" unfolding a by simp
  show "resultPointer (snd afterFirstTask) = None"
  "observed (snd afterFirstTask) = []"
  "signalChannels (snd afterFirstTask) = [(''stop'', 0), (''data'', 1)]"
  "chans (heap (snd afterFirstTask)) 0 = \<lparr>channelImpl.name = Named [], size' = 100000, buffer = [],
       blockedSends = [], blockedReceives = [ReceiveLocals 0], channelImpl.closed = False, recValue = None\<rparr>"
  "chans (heap (snd afterFirstTask)) (Suc 0) = \<lparr>channelImpl.name = Named [], size' = 100000, buffer = [],
       blockedSends = [], blockedReceives = [SelectReceive 1 1 0], channelImpl.closed = False, recValue = None\<rparr>"
  "selectFrames (heap (snd afterFirstTask)) (Suc 0) = None"
  "receiveFrames (heap (snd afterFirstTask)) 0 = \<lparr>hasResult = False, result = Nil, more' = True\<rparr>"
  "frameCount (heap (snd afterFirstTask)) = 2"
    unfolding a using p by simp_all
qed

lemma signalled_eval:
  "fst (signalHandler ''data'' [1] (snd afterFirstTask)) = Returned ()"
  "fst (signalHandler ''data'' [2] (snd (signalHandler ''data'' [1] (snd afterFirstTask)))) = Returned ()"
  "fst (signalHandler ''stop'' [0]
        (snd (signalHandler ''data'' [2]
          (snd (signalHandler ''data'' [1] (snd afterFirstTask)))))) = Returned ()"
  "fst signalled = \<lparr>sequence = 2, channelSequence = 0, selectorSequence = 0,
       coroutines = [\<lparr>coroutineState.name = Numbered 1, keptBlocked = True,
           coroutineState.closed = False, panicError = None, goroutine = InReceive 0 (PanicWith ''stopped'')\<rparr>,
         \<lparr>coroutineState.name = Numbered 2, keptBlocked = True,
           coroutineState.closed = False, panicError = None, goroutine = InSelect 1 (ReceiveThen 1 (ReceiveThen 1 Finish))\<rparr>],
       executing = False, closed = False\<rparr>"
  "resultPointer (snd signalled) = None"
  "observed (snd signalled) = []"
  "signalChannels (snd signalled) = [(''stop'', 0), (''data'', 1)]"
  "chans (heap (snd signalled)) 0 = \<lparr>channelImpl.name = Named [], size' = 100000, buffer = [],
       blockedSends = [], blockedReceives = [], channelImpl.closed = False, recValue = None\<rparr>"
  "chans (heap (snd signalled)) (Suc 0) = \<lparr>channelImpl.name = Named [], size' = 100000, buffer = [Bytes [2]],
       blockedSends = [], blockedReceives = [], channelImpl.closed = False, recValue = None\<rparr>"
  "selectFrames (heap (snd signalled)) (Suc 0) = Some (ReceiveBranch 1 (Bytes [1]) True 0)"
  "receiveFrames (heap (snd signalled)) 0 = \<lparr>hasResult = True, result = Bytes [0], more' = True\<rparr>"
  "frameCount (heap (snd signalled)) = 2"
proof -
  from signals [OF afterFirstTask_eval(3-)] obtain m' where
    r: "fst (signalHandler ''data'' [1] (snd afterFirstTask)) = Returned ()"
      "fst (signalHandler ''data'' [2] (snd (signalHandler ''data'' [1] (snd afterFirstTask)))) = Returned ()"
    and e: "signalHandler ''stop'' [0]
        (snd (signalHandler ''data'' [2]
          (snd (signalHandler ''data'' [1] (snd afterFirstTask))))) = (Returned (), m')"
    and p: "resultPointer m' = None" "observed m' = []" "signalChannels m' = [(''stop'', 0), (''data'', 1)]" "chans (heap m') 0 = \<lparr>channelImpl.name = Named [], size' = 100000, buffer = [],
       blockedSends = [], blockedReceives = [], channelImpl.closed = False, recValue = None\<rparr>" "chans (heap m') (Suc 0) = \<lparr>channelImpl.name = Named [], size' = 100000, buffer = [Bytes [2]],
       blockedSends = [], blockedReceives = [], channelImpl.closed = False, recValue = None\<rparr>" "selectFrames (heap m') (Suc 0) = Some (ReceiveBranch 1 (Bytes [1]) True 0)" "receiveFrames (heap m') 0 = \<lparr>hasResult = True, result = Bytes [0], more' = True\<rparr>" "frameCount (heap m') = 2"
    by blast
  have a: "signalled = (\<lparr>sequence = 2, channelSequence = 0, selectorSequence = 0,
       coroutines = [\<lparr>coroutineState.name = Numbered 1, keptBlocked = True,
           coroutineState.closed = False, panicError = None, goroutine = InReceive 0 (PanicWith ''stopped'')\<rparr>,
         \<lparr>coroutineState.name = Numbered 2, keptBlocked = True,
           coroutineState.closed = False, panicError = None, goroutine = InSelect 1 (ReceiveThen 1 (ReceiveThen 1 Finish))\<rparr>],
       executing = False, closed = False\<rparr>, m')"
    using e by (simp add: signalled_def afterFirstTask_eval(2))
  show "fst (signalHandler ''data'' [1] (snd afterFirstTask)) = Returned ()"
    "fst (signalHandler ''data'' [2] (snd (signalHandler ''data'' [1] (snd afterFirstTask)))) = Returned ()"
    by (rule r)+
  show "fst (signalHandler ''stop'' [0]
        (snd (signalHandler ''data'' [2]
          (snd (signalHandler ''data'' [1] (snd afterFirstTask)))))) = Returned ()" using e by simp
  show "fst signalled = \<lparr>sequence = 2, channelSequence = 0, selectorSequence = 0,
       coroutines = [\<lparr>coroutineState.name = Numbered 1, keptBlocked = True,
           coroutineState.closed = False, panicError = None, goroutine = InReceive 0 (PanicWith ''stopped'')\<rparr>,
         \<lparr>coroutineState.name = Numbered 2, keptBlocked = True,
           coroutineState.closed = False, panicError = None, goroutine = InSelect 1 (ReceiveThen 1 (ReceiveThen 1 Finish))\<rparr>],
       executing = False, closed = False\<rparr>" unfolding a by simp
  show "resultPointer (snd signalled) = None"
  "observed (snd signalled) = []"
  "signalChannels (snd signalled) = [(''stop'', 0), (''data'', 1)]"
  "chans (heap (snd signalled)) 0 = \<lparr>channelImpl.name = Named [], size' = 100000, buffer = [],
       blockedSends = [], blockedReceives = [], channelImpl.closed = False, recValue = None\<rparr>"
  "chans (heap (snd signalled)) (Suc 0) = \<lparr>channelImpl.name = Named [], size' = 100000, buffer = [Bytes [2]],
       blockedSends = [], blockedReceives = [], channelImpl.closed = False, recValue = None\<rparr>"
  "selectFrames (heap (snd signalled)) (Suc 0) = Some (ReceiveBranch 1 (Bytes [1]) True 0)"
  "receiveFrames (heap (snd signalled)) 0 = \<lparr>hasResult = True, result = Bytes [0], more' = True\<rparr>"
  "frameCount (heap (snd signalled)) = 2"
    unfolding a using p by simp_all
qed

lemma signalled_eq: "signalled = (\<lparr>sequence = 2, channelSequence = 0, selectorSequence = 0,
       coroutines = [\<lparr>coroutineState.name = Numbered 1, keptBlocked = True,
           coroutineState.closed = False, panicError = None, goroutine = InReceive 0 (PanicWith ''stopped'')\<rparr>,
         \<lparr>coroutineState.name = Numbered 2, keptBlocked = True,
           coroutineState.closed = False, panicError = None, goroutine = InSelect 1 (ReceiveThen 1 (ReceiveThen 1 Finish))\<rparr>],
       executing = False, closed = False\<rparr>, snd signalled)"
  using signalled_eval(4) by (simp add: prod_eq_iff)

lemma afterPanic_eval:
  "executeDispatcher resumeRoutine (\<lambda>es. es) signalled = Some (Inr ([LogError ''stopped'', LogWarn [''data'']], afterPanic))"
  "fst afterPanic = \<lparr>sequence = 2, channelSequence = 0, selectorSequence = 0,
       coroutines = [\<lparr>coroutineState.name = Numbered 2, keptBlocked = True,
           coroutineState.closed = False, panicError = None, goroutine = InSelect 1 (ReceiveThen 1 (ReceiveThen 1 Finish))\<rparr>],
       executing = False, closed = False\<rparr>"
  "resultPointer (snd afterPanic) = None"
  "observed (snd afterPanic) = [DecodedFrom [0]]"
  "signalChannels (snd afterPanic) = [(''stop'', 0), (''data'', 1)]"
  "chans (heap (snd afterPanic)) (Suc 0) = \<lparr>channelImpl.name = Named [], size' = 100000, buffer = [],
       blockedSends = [], blockedReceives = [], channelImpl.closed = False, recValue = Some (Bytes [2])\<rparr>"
  "selectFrames (heap (snd afterPanic)) (Suc 0) = Some (ReceiveBranch 1 (Bytes [1]) True 0)"
  "frameCount (heap (snd afterPanic)) = 2"
proof -
  from secondTask [OF signalled_eval(5-)] obtain m' where
    e: "executeDispatcher resumeRoutine (\<lambda>es. es)
      (\<lparr>sequence = 2, channelSequence = 0, selectorSequence = 0,
       coroutines = [\<lparr>coroutineState.name = Numbered 1, keptBlocked = True,
           coroutineState.closed = False, panicError = None, goroutine = InReceive 0 (PanicWith ''stopped'')\<rparr>,
         \<lparr>coroutineState.name = Numbered 2, keptBlocked = True,
           coroutineState.closed = False, panicError = None, goroutine = InSelect 1 (ReceiveThen 1 (ReceiveThen 1 Finish))\<rparr>],
       executing = False, closed = False\<rparr>, snd signalled) = Some (Inr ([LogError ''stopped'', LogWarn [''data'']], \<lparr>sequence = 2, channelSequence = 0, selectorSequence = 0,
       coroutines = [\<lparr>coroutineState.name = Numbered 2, keptBlocked = True,
           coroutineState.closed = False, panicError = None, goroutine = InSelect 1 (ReceiveThen 1 (ReceiveThen 1 Finish))\<rparr>],
       executing = False, closed = False\<rparr>, m'))"
    and p: "resultPointer m' = None" "observed m' = [DecodedFrom [0]]" "signalChannels m' = [(''stop'', 0), (''data'', 1)]" "chans (heap m') (Suc 0) = \<lparr>channelImpl.name = Named [], size' = 100000, buffer = [],
       blockedSends = [], blockedReceives = [], channelImpl.closed = False, recValue = Some (Bytes [2])\<rparr>" "selectFrames (heap m') (Suc 0) = Some (ReceiveBranch 1 (Bytes [1]) True 0)" "frameCount (heap m') = 2"
    by blast
  from e have e': "executeDispatcher resumeRoutine (\<lambda>es. es) signalled = Some (Inr ([LogError ''stopped'', LogWarn [''data'']], \<lparr>sequence = 2, channelSequence = 0, selectorSequence = 0,
       coroutines = [\<lparr>coroutineState.name = Numbered 2, keptBlocked = True,
           coroutineState.closed = False, panicError = None, goroutine = InSelect 1 (ReceiveThen 1 (ReceiveThen 1 Finish))\<rparr>],
       executing = False, closed = False\<rparr>, m'))"
    by (subst signalled_eq) simp
  have a: "afterPanic = (\<lparr>sequence = 2, channelSequence = 0, selectorSequence = 0,
       coroutines = [\<lparr>coroutineState.name = Numbered 2, keptBlocked = True,
           coroutineState.closed = False, panicError = None, goroutine = InSelect 1 (ReceiveThen 1 (ReceiveThen 1 Finish))\<rparr>],
       executing = False, closed = False\<rparr>, m')"
    using e' by (simp add: afterPanic_def decisionTask_def)
  show "executeDispatcher resumeRoutine (\<lambda>es. es) signalled = Some (Inr ([LogError ''stopped'', LogWarn [''data'']], afterPanic))"
    unfolding a using e' by simp
  show "fst afterPanic = \<lparr>sequence = 2, channelSequence = 0, selectorSequence = 0,
       coroutines = [\<lparr>coroutineState.name = Numbered 2, keptBlocked = True,
           coroutineState.closed = False, panicError = None, goroutine = InSelect 1 (ReceiveThen 1 (ReceiveThen 1 Finish))\<rparr>],
       executing = False, closed = False\<rparr>" unfolding a by simp
  show "resultPointer (snd afterPanic) = None"
  "observed (snd afterPanic) = [DecodedFrom [0]]"
  "signalChannels (snd afterPanic) = [(''stop'', 0), (''data'', 1)]"
  "chans (heap (snd afterPanic)) (Suc 0) = \<lparr>channelImpl.name = Named [], size' = 100000, buffer = [],
       blockedSends = [], blockedReceives = [], channelImpl.closed = False, recValue = Some (Bytes [2])\<rparr>"
  "selectFrames (heap (snd afterPanic)) (Suc 0) = Some (ReceiveBranch 1 (Bytes [1]) True 0)"
  "frameCount (heap (snd afterPanic)) = 2"
    unfolding a using p by simp_all
qed

lemma afterPanic_eq: "afterPanic = (\<lparr>sequence = 2, channelSequence = 0, selectorSequence = 0,
       coroutines = [\<lparr>coroutineState.name = Numbered 2, keptBlocked = True,
           coroutineState.closed = False, panicError = None, goroutine = InSelect 1 (ReceiveThen 1 (ReceiveThen 1 Finish))\<rparr>],
       executing = False, closed = False\<rparr>, snd afterPanic)"
  using afterPanic_eval(2) by (simp add: prod_eq_iff)

lemma pumped_eval:
  "ExecuteUntilAllBlocked resumeRoutine signalled = Some (Inr (Some ''stopped'', pumped))"
  "fst pumped = \<lparr>sequence = 2, channelSequence = 0, selectorSequence = 0,
       coroutines = [\<lparr>coroutineState.name = Numbered 2, keptBlocked = True,
           coroutineState.closed = False, panicError = None, goroutine = InSelect 1 (ReceiveThen 1 (ReceiveThen 1 Finish))\<rparr>],
       executing = False, closed = False\<rparr>"
  "resultPointer (snd pumped) = None"
  "observed (snd pumped) = [DecodedFrom [0]]"
  "signalChannels (snd pumped) = [(''stop'', 0), (''data'', 1)]"
  "chans (heap (snd pumped)) (Suc 0) = \<lparr>channelImpl.name = Named [], size' = 100000, buffer = [Bytes [2]],
       blockedSends = [], blockedReceives = [], channelImpl.closed = False, recValue = None\<rparr>"
  "selectFrames (heap (snd pumped)) (Suc 0) = Some (ReceiveBranch 1 (Bytes [1]) True 0)"
  "frameCount (heap (snd pumped)) = 2"
proof -
  from secondPump [OF signalled_eval(5-)] obtain m' where
    e: "ExecuteUntilAllBlocked resumeRoutine
      (\<lparr>sequence = 2, channelSequence = 0, selectorSequence = 0,
       coroutines = [\<lparr>coroutineState.name = Numbered 1, keptBlocked = True,
           coroutineState.closed = False, panicError = None, goroutine = InReceive 0 (PanicWith ''stopped'')\<rparr>,
         \<lparr>coroutineState.name = Numbered 2, keptBlocked = True,
           coroutineState.closed = False, panicError = None, goroutine = InSelect 1 (ReceiveThen 1 (ReceiveThen 1 Finish))\<rparr>],
       executing = False, closed = False\<rparr>, snd signalled) = Some (Inr (Some ''stopped'', \<lparr>sequence = 2, channelSequence = 0, selectorSequence = 0,
       coroutines = [\<lparr>coroutineState.name = Numbered 2, keptBlocked = True,
           coroutineState.closed = False, panicError = None, goroutine = InSelect 1 (ReceiveThen 1 (ReceiveThen 1 Finish))\<rparr>],
       executing = False, closed = False\<rparr>, m'))"
    and p: "resultPointer m' = None" "observed m' = [DecodedFrom [0]]" "signalChannels m' = [(''stop'', 0), (''data'', 1)]" "chans (heap m') (Suc 0) = \<lparr>channelImpl.name = Named [], size' = 100000, buffer = [Bytes [2]],
       blockedSends = [], blockedReceives = [], channelImpl.closed = False, recValue = None\<rparr>" "selectFrames (heap m') (Suc 0) = Some (ReceiveBranch 1 (Bytes [1]) True 0)" "frameCount (heap m') = 2"
    by blast
  from e have e': "ExecuteUntilAllBlocked resumeRoutine signalled = Some (Inr (Some ''stopped'', \<lparr>sequence = 2, channelSequence = 0, selectorSequence = 0,
       coroutines = [\<lparr>coroutineState.name = Numbered 2, keptBlocked = True,
           coroutineState.closed = False, panicError = None, goroutine = InSelect 1 (ReceiveThen 1 (ReceiveThen 1 Finish))\<rparr>],
       executing = False, closed = False\<rparr>, m'))"
    by (subst signalled_eq) simp
  have a: "pumped = (\<lparr>sequence = 2, channelSequence = 0, selectorSequence = 0,
       coroutines = [\<lparr>coroutineState.name = Numbered 2, keptBlocked = True,
           coroutineState.closed = False, panicError = None, goroutine = InSelect 1 (ReceiveThen 1 (ReceiveThen 1 Finish))\<rparr>],
       executing = False, closed = False\<rparr>, m')"
    using e' by (simp add: pumped_def)
  show "ExecuteUntilAllBlocked resumeRoutine signalled = Some (Inr (Some ''stopped'', pumped))"
    unfolding a using e' by simp
  show "fst pumped = \<lparr>sequence = 2, channelSequence = 0, selectorSequence = 0,
       coroutines = [\<lparr>coroutineState.name = Numbered 2, keptBlocked = True,
           coroutineState.closed = False, panicError = None, goroutine = InSelect 1 (ReceiveThen 1 (ReceiveThen 1 Finish))\<rparr>],
       executing = False, closed = False\<rparr>" unfolding a by simp
  show "resultPointer (snd pumped) = None"
  "observed (snd pumped) = [DecodedFrom [0]]"
  "signalChannels (snd pumped) = [(''stop'', 0), (''data'', 1)]"
  "chans (heap (snd pumped)) (Suc 0) = \<lparr>channelImpl.name = Named [], size' = 100000, buffer = [Bytes [2]],
       blockedSends = [], blockedReceives = [], channelImpl.closed = False, recValue = None\<rparr>"
  "selectFrames (heap (snd pumped)) (Suc 0) = Some (ReceiveBranch 1 (Bytes [1]) True 0)"
  "frameCount (heap (snd pumped)) = 2"
    unfolding a using p by simp_all
qed

lemma pumped_eq: "pumped = (\<lparr>sequence = 2, channelSequence = 0, selectorSequence = 0,
       coroutines = [\<lparr>coroutineState.name = Numbered 2, keptBlocked = True,
           coroutineState.closed = False, panicError = None, goroutine = InSelect 1 (ReceiveThen 1 (ReceiveThen 1 Finish))\<rparr>],
       executing = False, closed = False\<rparr>, snd pumped)"
  using pumped_eval(2) by (simp add: prod_eq_iff)

lemma afterThirdTask_eval:
  "executeDispatcher resumeRoutine (\<lambda>es. es) afterPanic = Some (Inr ([], afterThirdTask))"
  "fst afterThirdTask = \<lparr>sequence = 2, channelSequence = 0, selectorSequence = 0,
       coroutines = [\<lparr>coroutineState.name = Numbered 2, keptBlocked = True,
           coroutineState.closed = False, panicError = None, goroutine = InReceive 3 Finish\<rparr>],
       executing = False, closed = False\<rparr>"
  "observed (snd afterThirdTask) = [DecodedFrom [0], DecodedFrom [1]]"
  "chans (heap (snd afterThirdTask)) (Suc 0) = \<lparr>channelImpl.name = Named [], size' = 100000, buffer = [],
       blockedSends = [], blockedReceives = [ReceiveLocals 3], channelImpl.closed = False, recValue = None\<rparr>"
proof -
  from thirdTask [OF afterPanic_eval(3-), of "\<lambda>es. es"] obtain m' where
    e: "executeDispatcher resumeRoutine (\<lambda>es. es)
      (\<lparr>sequence = 2, channelSequence = 0, selectorSequence = 0,
       coroutines = [\<lparr>coroutineState.name = Numbered 2, keptBlocked = True,
           coroutineState.closed = False, panicError = None, goroutine = InSelect 1 (ReceiveThen 1 (ReceiveThen 1 Finish))\<rparr>],
       executing = False, closed = False\<rparr>, snd afterPanic) = Some (Inr ([], \<lparr>sequence = 2, channelSequence = 0, selectorSequence = 0,
       coroutines = [\<lparr>coroutineState.name = Numbered 2, keptBlocked = True,
           coroutineState.closed = False, panicError = None, goroutine = InReceive 3 Finish\<rparr>],
       executing = False, closed = False\<rparr>, m'))"
    and p: "observed m' = [DecodedFrom [0], DecodedFrom [1]]" "chans (heap m') (Suc 0) = \<lparr>channelImpl.name = Named [], size' = 100000, buffer = [],
       blockedSends = [], blockedReceives = [ReceiveLocals 3], channelImpl.closed = False, recValue = None\<rparr>"
    by blast
  from e have e': "executeDispatcher resumeRoutine (\<lambda>es. es) afterPanic = Some (Inr ([], \<lparr>sequence = 2, channelSequence = 0, selectorSequence = 0,
       coroutines = [\<lparr>coroutineState.name = Numbered 2, keptBlocked = True,
           coroutineState.closed = False, panicError = None, goroutine = InReceive 3 Finish\<rparr>],
       executing = False, closed = False\<rparr>, m'))"
    by (subst afterPanic_eq) simp
  have a: "afterThirdTask = (\<lparr>sequence = 2, channelSequence = 0, selectorSequence = 0,
       coroutines = [\<lparr>coroutineState.name = Numbered 2, keptBlocked = True,
           coroutineState.closed = False, panicError = None, goroutine = InReceive 3 Finish\<rparr>],
       executing = False, closed = False\<rparr>, m')"
    using e' by (simp add: afterThirdTask_def decisionTask_def)
  show "executeDispatcher resumeRoutine (\<lambda>es. es) afterPanic = Some (Inr ([], afterThirdTask))"
    unfolding a using e' by simp
  show "fst afterThirdTask = \<lparr>sequence = 2, channelSequence = 0, selectorSequence = 0,
       coroutines = [\<lparr>coroutineState.name = Numbered 2, keptBlocked = True,
           coroutineState.closed = False, panicError = None, goroutine = InReceive 3 Finish\<rparr>],
       executing = False, closed = False\<rparr>" unfolding a by simp
  show "observed (snd afterThirdTask) = [DecodedFrom [0], DecodedFrom [1]]"
  "chans (heap (snd afterThirdTask)) (Suc 0) = \<lparr>channelImpl.name = Named [], size' = 100000, buffer = [],
       blockedSends = [], blockedReceives = [ReceiveLocals 3], channelImpl.closed = False, recValue = None\<rparr>"
    unfolding a using p by simp_all
qed

lemma afterThirdTask_eq: "afterThirdTask = (\<lparr>sequence = 2, channelSequence = 0, selectorSequence = 0,
       coroutines = [\<lparr>coroutineState.name = Numbered 2, keptBlocked = True,
           coroutineState.closed = False, panicError = None, goroutine = InReceive 3 Finish\<rparr>],
       executing = False, closed = False\<rparr>, snd afterThirdTask)"
  using afterThirdTask_eval(2) by (simp add: prod_eq_iff)

lemma afterThirdTaskUnchecked_eval:
  "executeDispatcher resumeRoutine (\<lambda>es. es) pumped = Some (Inr ([], afterThirdTaskUnchecked))"
  "fst afterThirdTaskUnchecked = \<lparr>sequence = 2, channelSequence = 0, selectorSequence = 0,
       coroutines = [],
       executing = False, closed = False\<rparr>"
  "observed (snd afterThirdTaskUnchecked) = [DecodedFrom [0], DecodedFrom [1], DecodedFrom [2]]"
  "chans (heap (snd afterThirdTaskUnchecked)) (Suc 0) = \<lparr>channelImpl.name = Named [], size' = 100000, buffer = [],
       blockedSends = [], blockedReceives = [], channelImpl.closed = False, recValue = None\<rparr>"
proof -
  from thirdTaskUnchecked [OF pumped_eval(3-), of "\<lambda>es. es"] obtain m' where
    e: "executeDispatcher resumeRoutine (\<lambda>es. es)
      (\<lparr>sequence = 2, channelSequence = 0, selectorSequence = 0,
       coroutines = [\<lparr>coroutineState.name = Numbered 2, keptBlocked = True,
           coroutineState.closed = False, panicError = None, goroutine = InSelect 1 (ReceiveThen 1 (ReceiveThen 1 Finish))\<rparr>],
       executing = False, closed = False\<rparr>, snd pumped) = Some (Inr ([], \<lparr>sequence = 2, channelSequence = 0, selectorSequence = 0,
       coroutines = [],
       executing = False, closed = False\<rparr>, m'))"
    and p: "observed m' = [DecodedFrom [0], DecodedFrom [1], DecodedFrom [2]]" "chans (heap m') (Suc 0) = \<lparr>channelImpl.name = Named [], size' = 100000, buffer = [],
       blockedSends = [], blockedReceives = [], channelImpl.closed = False, recValue = None\<rparr>"
    by blast
  from e have e': "executeDispatcher resumeRoutine (\<lambda>es. es) pumped = Some (Inr ([], \<lparr>sequence = 2, channelSequence = 0, selectorSequence = 0,
       coroutines = [],
       executing = False, closed = False\<rparr>, m'))"
    by (subst pumped_eq) simp
  have a: "afterThirdTaskUnchecked = (\<lparr>sequence = 2, channelSequence = 0, selectorSequence = 0,
       coroutines = [],
       executing = False, closed = False\<rparr>, m')"
    using e' by (simp add: afterThirdTaskUnchecked_def decisionTask_def)
  show "executeDispatcher resumeRoutine (\<lambda>es. es) pumped = Some (Inr ([], afterThirdTaskUnchecked))"
    unfolding a using e' by simp
  show "fst afterThirdTaskUnchecked = \<lparr>sequence = 2, channelSequence = 0, selectorSequence = 0,
       coroutines = [],
       executing = False, closed = False\<rparr>" unfolding a by simp
  show "observed (snd afterThirdTaskUnchecked) = [DecodedFrom [0], DecodedFrom [1], DecodedFrom [2]]"
  "chans (heap (snd afterThirdTaskUnchecked)) (Suc 0) = \<lparr>channelImpl.name = Named [], size' = 100000, buffer = [],
       blockedSends = [], blockedReceives = [], channelImpl.closed = False, recValue = None\<rparr>"
    unfolding a using p by simp_all
qed

lemma afterThirdTaskUnchecked_eq: "afterThirdTaskUnchecked = (\<lparr>sequence = 2, channelSequence = 0, selectorSequence = 0,
       coroutines = [],
       executing = False, closed = False\<rparr>, snd afterThirdTaskUnchecked)"
  using afterThirdTaskUnchecked_eval(2) by (simp add: prod_eq_iff)

text \<open>
  Claim C10 against the code, on the example: a run in which the check of
  \<^verbatim>\<open>getUnhandledSignals\<close> makes a signal disappear. After the first decision task the
  root coroutine is parked in its \<^verbatim>\<open>Receive\<close> and the other in its \<^verbatim>\<open>Select\<close>. Both signals
  on \<^verbatim>\<open>data\<close> are accepted: the first by the callback of the \<^verbatim>\<open>Select\<close>, which keeps it in
  its \<^verbatim>\<open>readyBranch\<close>, the second by the buffer. In the second decision task the root
  function panics, the dispatcher returns the panic before the other coroutine has
  run, and \<^verbatim>\<open>executeDispatcher\<close> runs the check, which moves the second signal from the
  buffer to \<^verbatim>\<open>recValue\<close>. In the third decision task the \<^verbatim>\<open>readyBranch\<close> of the \<^verbatim>\<open>Select\<close>
  writes the first signal over it: the workflow receives the first signal and then
  stays parked in its second \<^verbatim>\<open>Receive\<close>, on a channel that holds nothing. From the same
  state without the check (the dispatcher alone, then the third decision task) the
  workflow receives both signals and ends.
\<close>

theorem getUnhandledSignals_drops_signal:
  "executeDispatcher resumeRoutine (\<lambda>es. es) started = Some (Inr ([], afterFirstTask)) \<and>
   fst (signalHandler ''data'' [1] (snd afterFirstTask)) = Returned () \<and>
   fst (signalHandler ''data'' [2] (snd (signalHandler ''data'' [1] (snd afterFirstTask)))) =
     Returned () \<and>
   held (chans (heap (snd signalled)) 1) = [Bytes [2]] \<and>
   selectFrames (heap (snd signalled)) 1 = Some (ReceiveBranch 1 (Bytes [1]) True 0) \<and>
   executeDispatcher resumeRoutine (\<lambda>es. es) signalled =
     Some (Inr ([LogError ''stopped'', LogWarn [''data'']], afterPanic)) \<and>
   held (chans (heap (snd afterPanic)) 1) = [Bytes [2]] \<and>
   executeDispatcher resumeRoutine (\<lambda>es. es) afterPanic = Some (Inr ([], afterThirdTask)) \<and>
   observed (snd afterThirdTask) = [DecodedFrom [0], DecodedFrom [1]] \<and>
   map goroutine (coroutines (fst afterThirdTask)) = [InReceive 3 Finish] \<and>
   held (chans (heap (snd afterThirdTask)) 1) = [] \<and>
   ExecuteUntilAllBlocked resumeRoutine signalled = Some (Inr (Some ''stopped'', pumped)) \<and>
   held (chans (heap (snd pumped)) 1) = [Bytes [2]] \<and>
   executeDispatcher resumeRoutine (\<lambda>es. es) pumped = Some (Inr ([], afterThirdTaskUnchecked)) \<and>
   observed (snd afterThirdTaskUnchecked) = [DecodedFrom [0], DecodedFrom [1], DecodedFrom [2]] \<and>
   coroutines (fst afterThirdTaskUnchecked) = []"
  using afterFirstTask_eval(1) signalled_eval afterPanic_eval pumped_eval afterThirdTask_eval
    afterThirdTaskUnchecked_eval
  by (simp add: held_def)

section \<open>Activities and child workflows: failed validations\<close>

text \<open>What the calls leave of the parts of a session.\<close>

lemma newFuture_parts:
  "requests (snd (newFuture st)) = requests st"
  "executions (snd (newFuture st)) = executions st"
  "cellCount (snd (newFuture st)) = cellCount st"
  "watchers (snd (newFuture st)) = watchers st"
  "envOptions (snd (newFuture st)) = envOptions st"
  "ctxErrs (snd (newFuture st)) = ctxErrs st"
  "fst (newFuture st) = length (futs (store st))"
  "futs (store (snd (newFuture st))) =
     futs (store st) @ [\<lparr>fvalue = Nil, err = None, ready = False,
       futureImpl.channel = chanCount (store st), chained = []\<rparr>]"
  "chanCount (store (snd (newFuture st))) = chanCount (store st) + 1"
  "chans (store (snd (newFuture st))) (chanCount (store st)) =
     \<lparr>channelImpl.name = Numbered (channelSeq st + 1), size' = 0, buffer = [], blockedSends = [],
      blockedReceives = [], channelImpl.closed = False, recValue = None\<rparr>"
  by (simp_all add: newFuture_def NewFuture_def NewChannel_def newChannel_def setChan_def)

lemma failed_parts:
  "requests (snd (failed h f e st)) = requests st"
  "executions (snd (failed h f e st)) = executions st"
  "cellCount (snd (failed h f e st)) = cellCount st"
  "watchers (snd (failed h f e st)) = watchers st"
  "envOptions (snd (failed h f e st)) = envOptions st"
  "ctxErrs (snd (failed h f e st)) = ctxErrs st"
  by (simp_all add: failed_def split: prod.splits blocking.splits)

lemma getValidatedWorkflowOptions_parts:
  "requests (snd (getValidatedWorkflowOptions info st)) = requests st"
  "executions (snd (getValidatedWorkflowOptions info st)) = executions st"
  "cellCount (snd (getValidatedWorkflowOptions info st)) = cellCount st"
  "watchers (snd (getValidatedWorkflowOptions info st)) = watchers st"
  "store (snd (getValidatedWorkflowOptions info st)) = store st"
  "ctxErrs (snd (getValidatedWorkflowOptions info st)) = ctxErrs st"
  by (simp_all add: getValidatedWorkflowOptions_def Let_def split: option.splits)

lemma getValidatedWorkflowOptions_fst:
  "envOptions st' = envOptions st \<Longrightarrow>
   fst (getValidatedWorkflowOptions info st') = fst (getValidatedWorkflowOptions info st)"
  by (simp add: getValidatedWorkflowOptions_def Let_def split: option.splits)

text \<open>A future that was just made, set with an error: it is ready, and \<^verbatim>\<open>Get\<close> returns the error.\<close>

lemma failed_new:
  assumes "f < length (futs (store st))" "futs (store st) ! f =
      \<lparr>fvalue = Nil, err = None, ready = False, futureImpl.channel = ch, chained = []\<rparr>"
    "held (chans (store st) ch) = []"
  shows "fst (failed h f e st) = Returned h"
    "futs (store (snd (failed h f e st))) ! f =
      \<lparr>fvalue = Nil, err = Some e, ready = True, futureImpl.channel = ch, chained = []\<rparr>"
    "fst (decodeGet decodeArg deSerialize f valuePtr (store (snd (failed h f e st)))) =
      Returned (Some e, Unchanged)"
    "fst (Get decodeArg f valuePtr (store (snd (failed h f e st)))) = Returned (Some e, Unchanged)"
proof -
  let ?w1 = "(store st)\<lparr>futs := (futs (store st))[f := (futs (store st) ! f)
      \<lparr>fvalue := Nil, err := Some e, ready := True\<rparr>]\<rparr>"
  let ?w2 = "Close ch ?w1"
  have s: "Set f Nil (Some e) (store st) = (Returned (), ?w2)"
    using assms(1,2) by (simp add: Set_def Let_def futs_Close)
  then have st': "snd (failed h f e st) = st\<lparr>store := ?w2\<rparr>" by (simp add: failed_def)
  from s show "fst (failed h f e st) = Returned h" by (simp add: failed_def)
  have fu: "futs ?w2 ! f =
      \<lparr>fvalue = Nil, err = Some e, ready = True, futureImpl.channel = ch, chained = []\<rparr>"
    using assms(1,2) by (simp add: futs_Close)
  then show "futs (store (snd (failed h f e st))) ! f =
      \<lparr>fvalue = Nil, err = Some e, ready = True, futureImpl.channel = ch, chained = []\<rparr>"
    by (simp add: st')
  have len: "f < length (futs ?w2)" using assms(1) by (simp add: futs_Close)
  have cl: "channelImpl.closed (chans ?w2 ch)" by (simp add: chans_Close)
  from assms(3) have d: "buffer (chans ?w2 ch) = []" "recValue (chans ?w2 ch) = None"
    by (simp_all add: chans_Close held_def split: option.splits)
  have rc: "Receive decodeArg ch NilDest ?w2 =
    (Returned (False, Unchanged),
     ?w2\<lparr>frameCount := frameCount ?w2 + 1,
       receiveFrames := (receiveFrames ?w2)
         (frameCount ?w2 := \<lparr>hasResult = False, result = Nil, more' = False\<rparr>)\<rparr>)"
    by (rule Receive_drained [OF cl d])
  show "fst (decodeGet decodeArg deSerialize f valuePtr (store (snd (failed h f e st)))) =
      Returned (Some e, Unchanged)"
    unfolding st' using len fu rc by (simp add: decodeGet_def decodeGet_after_def Let_def)
  show "fst (Get decodeArg f valuePtr (store (snd (failed h f e st)))) = Returned (Some e, Unchanged)"
    unfolding st' using len fu rc by (simp add: Get_def Get_after_def Let_def)
qed

lemma twoFutures_new:
  fixes st :: session
  defines "st2 \<equiv> snd (newFuture (snd (newFuture st)))"
  shows "newFuture st = (length (futs (store st)), snd (newFuture st))"
    "newFuture (snd (newFuture st)) = (Suc (length (futs (store st))), st2)"
    "length (futs (store st)) < length (futs (store st2))"
    "futs (store st2) ! length (futs (store st)) =
      \<lparr>fvalue = Nil, err = None, ready = False, futureImpl.channel = chanCount (store st),
       chained = []\<rparr>"
    "held (chans (store st2) (chanCount (store st))) = []"
    "requests st2 = requests st" "watchers st2 = watchers st" "executions st2 = executions st"
    "cellCount st2 = cellCount st" "envOptions st2 = envOptions st" "ctxErrs st2 = ctxErrs st"
proof -
  show "newFuture st = (length (futs (store st)), snd (newFuture st))"
    using newFuture_parts(7) [of st] by (simp add: prod_eq_iff)
  show "newFuture (snd (newFuture st)) = (Suc (length (futs (store st))), st2)"
    using newFuture_parts(7) [of "snd (newFuture st)"]
    by (simp add: prod_eq_iff st2_def newFuture_parts(8))
  show "length (futs (store st)) < length (futs (store st2))"
    by (simp add: st2_def newFuture_parts(8))
  show "futs (store st2) ! length (futs (store st)) =
      \<lparr>fvalue = Nil, err = None, ready = False, futureImpl.channel = chanCount (store st),
       chained = []\<rparr>"
    by (simp add: st2_def newFuture_parts(8) nth_append)
  show "held (chans (store st2) (chanCount (store st))) = []"
    by (simp add: st2_def newFuture_def NewFuture_def NewChannel_def newChannel_def setChan_def
        held_def)
  show "requests st2 = requests st" "watchers st2 = watchers st" "executions st2 = executions st"
    "cellCount st2 = cellCount st" "envOptions st2 = envOptions st" "ctxErrs st2 = ctxErrs st"
    by (simp_all add: st2_def newFuture_parts)
qed

lemma ExecuteChildWorkflow_failed:
  assumes "getValidatedWorkerFunction vfa enc f args = Returned (Inl e) \<or>
    (\<exists>x. getValidatedWorkerFunction vfa enc f args = Returned (Inr x)) \<and>
    fst (getValidatedWorkflowOptions info st) = Inl e"
  shows "fst (ExecuteChildWorkflow vfa enc info c f args st) =
      Returned (length (futs (store st)), Suc (length (futs (store st))))"
    "requests (snd (ExecuteChildWorkflow vfa enc info c f args st)) = requests st"
    "watchers (snd (ExecuteChildWorkflow vfa enc info c f args st)) = watchers st"
    "futs (store (snd (ExecuteChildWorkflow vfa enc info c f args st))) ! length (futs (store st)) =
      \<lparr>fvalue = Nil, err = Some e, ready = True, futureImpl.channel = chanCount (store st),
       chained = []\<rparr>"
    "fst (decodeGet decodeArg deSerialize (length (futs (store st))) valuePtr
       (store (snd (ExecuteChildWorkflow vfa enc info c f args st)))) = Returned (Some e, Unchanged)"
proof -
  define st2 where "st2 = snd (newFuture (snd (newFuture st)))"
  define st3 where "st3 = snd (getValidatedWorkflowOptions info st2)"
  let ?m = "length (futs (store st))"
  note n = twoFutures_new [of st, folded st2_def]
  have o: "fst (getValidatedWorkflowOptions info st2) = fst (getValidatedWorkflowOptions info st)"
    by (rule getValidatedWorkflowOptions_fst) (rule n(10))
  have s3: "store st3 = store st2" "requests st3 = requests st2" "watchers st3 = watchers st2"
    by (simp_all add: st3_def getValidatedWorkflowOptions_parts)
  from assms obtain u where e: "ExecuteChildWorkflow vfa enc info c f args st =
      failed (?m, Suc ?m) ?m e u" and u: "store u = store st2" "requests u = requests st"
      "watchers u = watchers st"
  proof
    assume a: "getValidatedWorkerFunction vfa enc f args = Returned (Inl e)"
    have "ExecuteChildWorkflow vfa enc info c f args st = failed (?m, Suc ?m) ?m e st2"
      by (simp add: ExecuteChildWorkflow_def case_prod_beta newFuture_parts(7,8) a st2_def)
    then show ?thesis using that [of st2] n by simp
  next
    assume "(\<exists>x. getValidatedWorkerFunction vfa enc f args = Returned (Inr x)) \<and>
      fst (getValidatedWorkflowOptions info st) = Inl e"
    then obtain x where a: "getValidatedWorkerFunction vfa enc f args = Returned (Inr x)"
      and b: "fst (getValidatedWorkflowOptions info st2) = Inl e" using o by auto
    from b have gv: "getValidatedWorkflowOptions info (snd (newFuture (snd (newFuture st)))) =
        (Inl e, st3)"
      by (simp add: st3_def st2_def prod_eq_iff)
    have "ExecuteChildWorkflow vfa enc info c f args st = failed (?m, Suc ?m) ?m e st3"
      by (cases x)
        (simp add: ExecuteChildWorkflow_def case_prod_beta [of _ "newFuture _"]
          newFuture_parts(7,8) a gv)
    then show ?thesis using that [of st3] n s3 by simp
  qed
  have p: "?m < length (futs (store u))"
    "futs (store u) ! ?m =
      \<lparr>fvalue = Nil, err = None, ready = False, futureImpl.channel = chanCount (store st),
       chained = []\<rparr>"
    "held (chans (store u) (chanCount (store st))) = []"
    using n u by simp_all
  note fn = failed_new [OF p]
  show "fst (ExecuteChildWorkflow vfa enc info c f args st) = Returned (?m, Suc ?m)"
    unfolding e by (rule fn(1))
  show "requests (snd (ExecuteChildWorkflow vfa enc info c f args st)) = requests st"
    unfolding e by (simp add: failed_parts u)
  show "watchers (snd (ExecuteChildWorkflow vfa enc info c f args st)) = watchers st"
    unfolding e by (simp add: failed_parts u)
  show "futs (store (snd (ExecuteChildWorkflow vfa enc info c f args st))) ! ?m =
      \<lparr>fvalue = Nil, err = Some e, ready = True, futureImpl.channel = chanCount (store st),
       chained = []\<rparr>"
    unfolding e by (rule fn(2))
  show "fst (decodeGet decodeArg deSerialize ?m valuePtr
       (store (snd (ExecuteChildWorkflow vfa enc info c f args st)))) = Returned (Some e, Unchanged)"
    unfolding e by (rule fn(3))
qed

lemma ExecuteActivity_failed:
  assumes "vf = Inl e \<or> (\<exists>x. vf = Inr x) \<and> vo = Inl e"
  shows "fst (ExecuteActivity vf vo a c st) = Returned (length (futs (store st)))"
    "requests (snd (ExecuteActivity vf vo a c st)) = requests st"
    "watchers (snd (ExecuteActivity vf vo a c st)) = watchers st"
    "futs (store (snd (ExecuteActivity vf vo a c st))) ! length (futs (store st)) =
      \<lparr>fvalue = Nil, err = Some e, ready = True, futureImpl.channel = chanCount (store st),
       chained = []\<rparr>"
    "fst (decodeGet decodeArg deSerialize (length (futs (store st))) valuePtr
       (store (snd (ExecuteActivity vf vo a c st)))) = Returned (Some e, Unchanged)"
proof -
  define st1 where "st1 = snd (newFuture st)"
  let ?m = "length (futs (store st))"
  from assms have e: "ExecuteActivity vf vo a c st = failed ?m ?m e st1"
    by (auto simp: ExecuteActivity_def case_prod_beta [of _ "newFuture _"] newFuture_parts(7) st1_def)
  have p: "?m < length (futs (store st1))"
    "futs (store st1) ! ?m =
      \<lparr>fvalue = Nil, err = None, ready = False, futureImpl.channel = chanCount (store st),
       chained = []\<rparr>"
    "held (chans (store st1) (chanCount (store st))) = []"
    by (simp_all add: st1_def newFuture_parts held_def)
  note fn = failed_new [OF p]
  show "fst (ExecuteActivity vf vo a c st) = Returned ?m" unfolding e by (rule fn(1))
  show "requests (snd (ExecuteActivity vf vo a c st)) = requests st"
    unfolding e by (simp add: failed_parts st1_def newFuture_parts)
  show "watchers (snd (ExecuteActivity vf vo a c st)) = watchers st"
    unfolding e by (simp add: failed_parts st1_def newFuture_parts)
  show "futs (store (snd (ExecuteActivity vf vo a c st))) ! ?m =
      \<lparr>fvalue = Nil, err = Some e, ready = True, futureImpl.channel = chanCount (store st),
       chained = []\<rparr>"
    unfolding e by (rule fn(2))
  show "fst (decodeGet decodeArg deSerialize ?m valuePtr
       (store (snd (ExecuteActivity vf vo a c st)))) = Returned (Some e, Unchanged)"
    unfolding e by (rule fn(3))
qed

lemma ExecuteChildWorkflow_NoValue:
  "fst (ExecuteChildWorkflow vfa enc info c NoValue args st) = Panicked nilDereference"
  by (simp add: ExecuteChildWorkflow_def getValidatedWorkerFunction_def split: prod.splits)

lemma getValidatedWorkerFunction_returns:
  "f \<noteq> NoValue \<Longrightarrow> \<exists>r. getValidatedWorkerFunction vfa enc f args = Returned r"
  by (cases f) (auto simp: getValidatedWorkerFunction_def Let_def split: sum.splits option.splits)

text \<open>
  Claim C7 against the code. \<^verbatim>\<open>ExecuteChildWorkflow\<close> called with nil for the workflow
  function panics with a nil dereference: \<^verbatim>\<open>getValidatedWorkerFunction\<close> calls \<^verbatim>\<open>Kind\<close> on
  the nil that \<^verbatim>\<open>reflect.TypeOf\<close> returns, before its \<^verbatim>\<open>switch\<close> can reach the \<^verbatim>\<open>default\<close>
  that rejects every other kind of value with an error. For every other value the
  validation returns; and whenever a validation returns an error (of the function and
  its arguments, or of the options in the context), \<^verbatim>\<open>ExecuteChildWorkflow\<close> returns its
  futures without a call to the environment and without a new coroutine, the main
  future is ready with the error, and \<^verbatim>\<open>Get\<close> on it returns the error. The same holds
  for \<^verbatim>\<open>ExecuteActivity\<close> when one of its two validations returns an error.
\<close>

theorem ExecuteChildWorkflow_validation:
  "fst (ExecuteChildWorkflow vfa enc info c NoValue args st) = Panicked nilDereference \<and>
   (f \<noteq> NoValue \<longrightarrow> (\<exists>r. getValidatedWorkerFunction vfa enc f args = Returned r)) \<and>
   (getValidatedWorkerFunction vfa enc f args = Returned (Inl e) \<or>
    (\<exists>x. getValidatedWorkerFunction vfa enc f args = Returned (Inr x)) \<and>
    fst (getValidatedWorkflowOptions info st) = Inl e \<longrightarrow>
      fst (ExecuteChildWorkflow vfa enc info c f args st) =
        Returned (length (futs (store st)), Suc (length (futs (store st)))) \<and>
      requests (snd (ExecuteChildWorkflow vfa enc info c f args st)) = requests st \<and>
      watchers (snd (ExecuteChildWorkflow vfa enc info c f args st)) = watchers st \<and>
      futs (store (snd (ExecuteChildWorkflow vfa enc info c f args st))) ! length (futs (store st)) =
        \<lparr>fvalue = Nil, err = Some e, ready = True, futureImpl.channel = chanCount (store st),
         chained = []\<rparr> \<and>
      fst (decodeGet decodeArg deSerialize (length (futs (store st))) valuePtr
        (store (snd (ExecuteChildWorkflow vfa enc info c f args st)))) =
        Returned (Some e, Unchanged)) \<and>
   (vf = Inl e \<or> (\<exists>x. vf = Inr x) \<and> vo = Inl e \<longrightarrow>
      fst (ExecuteActivity vf vo a c st) = Returned (length (futs (store st))) \<and>
      requests (snd (ExecuteActivity vf vo a c st)) = requests st \<and>
      watchers (snd (ExecuteActivity vf vo a c st)) = watchers st \<and>
      futs (store (snd (ExecuteActivity vf vo a c st))) ! length (futs (store st)) =
        \<lparr>fvalue = Nil, err = Some e, ready = True, futureImpl.channel = chanCount (store st),
         chained = []\<rparr> \<and>
      fst (decodeGet decodeArg deSerialize (length (futs (store st))) valuePtr
        (store (snd (ExecuteActivity vf vo a c st)))) = Returned (Some e, Unchanged))"
proof (intro conjI impI)
  show "fst (ExecuteChildWorkflow vfa enc info c NoValue args st) = Panicked nilDereference"
    by (rule ExecuteChildWorkflow_NoValue)
  show "\<exists>r. getValidatedWorkerFunction vfa enc f args = Returned r" if "f \<noteq> NoValue"
    using that by (rule getValidatedWorkerFunction_returns)
next
  assume a: "getValidatedWorkerFunction vfa enc f args = Returned (Inl e) \<or>
    (\<exists>x. getValidatedWorkerFunction vfa enc f args = Returned (Inr x)) \<and>
    fst (getValidatedWorkflowOptions info st) = Inl e"
  note t = ExecuteChildWorkflow_failed [OF a]
  show "fst (ExecuteChildWorkflow vfa enc info c f args st) =
        Returned (length (futs (store st)), Suc (length (futs (store st))))" by (rule t(1))
  show "requests (snd (ExecuteChildWorkflow vfa enc info c f args st)) = requests st" by (rule t(2))
  show "watchers (snd (ExecuteChildWorkflow vfa enc info c f args st)) = watchers st" by (rule t(3))
  show "futs (store (snd (ExecuteChildWorkflow vfa enc info c f args st))) ! length (futs (store st)) =
        \<lparr>fvalue = Nil, err = Some e, ready = True, futureImpl.channel = chanCount (store st),
         chained = []\<rparr>" by (rule t(4))
  show "fst (decodeGet decodeArg deSerialize (length (futs (store st))) valuePtr
        (store (snd (ExecuteChildWorkflow vfa enc info c f args st)))) =
        Returned (Some e, Unchanged)" by (rule t(5))
next
  assume a: "vf = Inl e \<or> (\<exists>x. vf = Inr x) \<and> vo = Inl e"
  note t = ExecuteActivity_failed [OF a]
  show "fst (ExecuteActivity vf vo a c st) = Returned (length (futs (store st)))" by (rule t(1))
  show "requests (snd (ExecuteActivity vf vo a c st)) = requests st" by (rule t(2))
  show "watchers (snd (ExecuteActivity vf vo a c st)) = watchers st" by (rule t(3))
  show "futs (store (snd (ExecuteActivity vf vo a c st))) ! length (futs (store st)) =
        \<lparr>fvalue = Nil, err = Some e, ready = True, futureImpl.channel = chanCount (store st),
         chained = []\<rparr>" by (rule t(4))
  show "fst (decodeGet decodeArg deSerialize (length (futs (store st))) valuePtr
        (store (snd (ExecuteActivity vf vo a c st)))) = Returned (Some e, Unchanged)" by (rule t(5))
qed

lemma fresh_eval:
  "futs (store fresh) = []" "requests fresh = []" "watchers fresh = []"
  "envOptions fresh = Some validOptions" "chanCount (store fresh) = 1"
  "cellCount fresh = 0" "executions fresh = (\<lambda>cell. None)" "ctxErrs fresh = (\<lambda>c. None)"
  "channelSeq fresh = 1" "frameCount (store fresh) = 0"
  "chans (store fresh) 0 = \<lparr>channelImpl.name = Numbered 1, size' = 0, buffer = [],
     blockedSends = [], blockedReceives = [], channelImpl.closed = False, recValue = None\<rparr>"
  by (simp_all add: fresh_def NewChannel_def newChannel_def setChan_def emptyWorld_def)

theorem ExecuteChildWorkflow_validation_witness:
  "fst (ExecuteChildWorkflow accepts encodes theInfo cancellable NoValue [] fresh) =
     Panicked nilDereference \<and>
   getValidatedWorkerFunction accepts encodes (OtherValue ''42'') [] =
     Returned (Inl (Error
       ''Invalid type 'workflowFunc' parameter provided, it can be either worker function or name of the worker type: 42'')) \<and>
   fst (ExecuteChildWorkflow accepts encodes theInfo cancellable (OtherValue ''42'') [] fresh) =
     Returned (0, 1) \<and>
   requests (snd (ExecuteChildWorkflow accepts encodes theInfo cancellable (OtherValue ''42'') []
     fresh)) = [] \<and>
   fst (decodeGet decodesAll decodesAll 0 Pointer
     (store (snd (ExecuteChildWorkflow accepts encodes theInfo cancellable (OtherValue ''42'') []
       fresh)))) =
     Returned (Some (Error
       ''Invalid type 'workflowFunc' parameter provided, it can be either worker function or name of the worker type: 42''),
       Unchanged)"
proof -
  have g: "getValidatedWorkerFunction accepts encodes (OtherValue ''42'') [] =
     Returned (Inl (Error
       ''Invalid type 'workflowFunc' parameter provided, it can be either worker function or name of the worker type: 42''))"
    by (simp add: getValidatedWorkerFunction_def)
  from ExecuteChildWorkflow_validation [of accepts encodes theInfo cancellable "[]" fresh
      "OtherValue ''42''"
      "Error ''Invalid type 'workflowFunc' parameter provided, it can be either worker function or name of the worker type: 42''"
      decodesAll decodesAll Pointer "Inr (''a'', [])" "Inr ''p''" "''1''"] g
  show ?thesis by (simp add: fresh_eval)
qed

section \<open>Child workflows: cancelling after the start\<close>

text \<open>Which steps add a request to cancel a child workflow, and which write an execution.\<close>

lemma ExecuteChildWorkflow_cancels:
  "EnvRequestCancelWorkflow dn i r \<in> set (requests (snd (ExecuteChildWorkflow vfa enc info c f args st)))
     \<Longrightarrow> EnvRequestCancelWorkflow dn i r \<in> set (requests st)"
  "executions (snd (ExecuteChildWorkflow vfa enc info c f args st)) cell = Some x
     \<Longrightarrow> executions st cell = Some x"
  by (auto simp: ExecuteChildWorkflow_def case_prod_beta failed_parts newFuture_parts
      getValidatedWorkflowOptions_parts Let_def split: blocking.splits sum.splits if_splits)

lemma startedCallback_parts:
  "requests (snd (startedCallback cell ef r e st)) = requests st"
  "executions (snd (startedCallback cell ef r e st)) =
     (if e = None then (executions st)(cell := Some r) else executions st)"
  by (simp_all add: startedCallback_def Let_def case_prod_beta)

lemma resultCallback_parts:
  "requests (snd (resultCallback mf r e st)) = requests st"
  "executions (snd (resultCallback mf r e st)) = executions st"
  by (simp_all add: resultCallback_def case_prod_beta)

lemma cancel_parts:
  "requests (cancel c st) = requests st" "executions (cancel c st) = executions st"
  by (simp_all add: cancel_def split: option.splits)

lemma afterDone_parts:
  "executions (snd (afterDone wt st)) = executions st"
  "watchers (snd (afterDone wt st)) = watchers st"
  "EnvRequestCancelWorkflow dn i r \<in> set (requests (snd (afterDone wt st))) \<Longrightarrow>
     EnvRequestCancelWorkflow dn i r \<in> set (requests st) \<or>
     (\<exists>d cell. wt = WatchChild d cell \<and> executions st cell = Some (i, r) \<and>
        Err d st = Some ErrCanceled)"
  by (auto simp: afterDone_def split: watching.splits option.splits if_splits)

lemma received_parts:
  "executions (received k wt rw st) = executions st"
  "EnvRequestCancelWorkflow dn i r \<in> set (requests (received k wt rw st)) \<Longrightarrow>
     EnvRequestCancelWorkflow dn i r \<in> set (requests st) \<or>
     (\<exists>d cell. wt = WatchChild d cell \<and> executions st cell = Some (i, r))"
proof -
  show "executions (received k wt rw st) = executions st"
    by (cases rw; cases "fst rw") (simp_all add: received_def setParking_def afterDone_parts)
  assume a: "EnvRequestCancelWorkflow dn i r \<in> set (requests (received k wt rw st))"
  obtain b w where rw: "rw = (b, w)" by (cases rw)
  show "EnvRequestCancelWorkflow dn i r \<in> set (requests st) \<or>
     (\<exists>d cell. wt = WatchChild d cell \<and> executions st cell = Some (i, r))"
  proof (cases b)
    case (Returned x)
    with a rw have "EnvRequestCancelWorkflow dn i r \<in>
        set (requests (snd (afterDone wt (st\<lparr>store := w\<rparr>))))"
      by (simp add: received_def setParking_def)
    from afterDone_parts(3) [OF this] show ?thesis by auto
  next
    case (Yielded x)
    with a rw show ?thesis by (simp add: received_def setParking_def)
  next
    case (Panicked x)
    with a rw show ?thesis by (simp add: received_def setParking_def)
  qed
qed

lemma runWatcher_parts:
  "executions (runWatcher k st) = executions st"
  "EnvRequestCancelWorkflow dn i r \<in> set (requests (runWatcher k st)) \<Longrightarrow>
     EnvRequestCancelWorkflow dn i r \<in> set (requests st) \<or>
     (\<exists>cell. executions st cell = Some (i, r))"
proof -
  show "executions (runWatcher k st) = executions st"
    by (simp add: runWatcher_def received_parts setParking_def
        split: prod.splits parking.splits option.splits)
  assume a: "EnvRequestCancelWorkflow dn i r \<in> set (requests (runWatcher k st))"
  show "EnvRequestCancelWorkflow dn i r \<in> set (requests st) \<or>
     (\<exists>cell. executions st cell = Some (i, r))"
  proof (cases "length (watchers st) \<le> k")
    case True
    with a show ?thesis by (simp add: runWatcher_def)
  next
    case False
    obtain wt p where wp: "watchers st ! k = (wt, p)" by (cases "watchers st ! k")
    show ?thesis
    proof (cases p)
      case Ended
      with a False wp show ?thesis by (simp add: runWatcher_def)
    next
      case NotStarted
      show ?thesis
      proof (cases "doneOf wt")
        case None
        with a False wp NotStarted show ?thesis by (simp add: runWatcher_def setParking_def)
      next
        case (Some ch)
        with a False wp NotStarted have "EnvRequestCancelWorkflow dn i r \<in>
          set (requests (received k wt (Receive decodesAll ch NilDest (store st)) st))"
          by (simp add: runWatcher_def)
        from received_parts(2) [OF this] show ?thesis by auto
      qed
    next
      case (ParkedAt fr)
      with a False wp have "EnvRequestCancelWorkflow dn i r \<in>
          set (requests (received k wt (Receive_loop decodesAll fr NilDest (store st)) st))"
        by (simp add: runWatcher_def)
      from received_parts(2) [OF this] show ?thesis by auto
    qed
  qed
qed

text \<open>
  One event keeps: every request to cancel a child names an execution in \<open>D\<close>, and so
  does every variable \<^verbatim>\<open>childWorkflowExecution\<close> that is set; \<open>D\<close> grows by what the event
  delivers.
\<close>

lemma delivered_Cons: "delivered (ev # evs) = delivered [ev] \<union> delivered evs"
  by (auto simp: delivered_def)

lemma delivered_Started: "e = None \<Longrightarrow> r \<in> delivered [Started j r e]"
  by (auto simp: delivered_def)

lemma deliver_keeps:
  assumes rq: "\<forall>dn i r. EnvRequestCancelWorkflow dn i r \<in> set (requests st) \<longrightarrow> (i, r) \<in> D"
    and ex: "\<forall>cell x. executions st cell = Some x \<longrightarrow> x \<in> D"
  shows "(\<forall>dn i r. EnvRequestCancelWorkflow dn i r \<in> set (requests (deliver vfa enc info ev st)) \<longrightarrow>
       (i, r) \<in> D \<union> delivered [ev]) \<and>
    (\<forall>cell x. executions (deliver vfa enc info ev st) cell = Some x \<longrightarrow> x \<in> D \<union> delivered [ev])"
proof (cases ev)
  case (CallChild c f args)
  with rq ex show ?thesis
    by (auto simp: deliver_def dest: ExecuteChildWorkflow_cancels)
next
  case (Started j r e)
  show ?thesis
  proof (cases "j < length (requests st)")
    case False
    with Started rq ex show ?thesis by (simp add: deliver_def)
  next
    case True
    show ?thesis
    proof (cases "requests st ! j")
      case (EnvExecuteChildWorkflow opts mf ef cell)
      with True have d: "deliver vfa enc info (Started j r e) st =
          snd (startedCallback cell ef r e st)"
        by (simp add: deliver_def)
      show ?thesis unfolding Started d
        using rq ex delivered_Started [of e r j]
        by (auto simp: startedCallback_parts split: if_splits)
    qed (use Started True rq ex in \<open>simp_all add: deliver_def\<close>)
  qed
next
  case (Completed j r e)
  show ?thesis
  proof (cases "j < length (requests st)")
    case False
    with Completed rq ex show ?thesis by (simp add: deliver_def)
  next
    case True
    show ?thesis
    proof (cases "requests st ! j")
      case (EnvExecuteChildWorkflow opts mf ef cell)
      with True have d: "deliver vfa enc info (Completed j r e) st =
          snd (resultCallback mf r e st)"
        by (simp add: deliver_def)
      show ?thesis unfolding Completed d using rq ex by (simp add: resultCallback_parts)
    qed (use Completed True rq ex in \<open>simp_all add: deliver_def\<close>)
  qed
next
  case (Cancel c)
  with rq ex show ?thesis by (simp add: deliver_def cancel_parts)
next
  case (Resume k)
  have d: "deliver vfa enc info (Resume k) st = runWatcher k st" by (simp add: deliver_def)
  show ?thesis unfolding Resume d
    using rq ex runWatcher_parts(2) [of _ _ _ k st] by (simp add: runWatcher_parts(1)) blast
qed

lemma happen_keeps:
  assumes "\<forall>dn i r. EnvRequestCancelWorkflow dn i r \<in> set (requests st) \<longrightarrow> (i, r) \<in> D"
    and "\<forall>cell x. executions st cell = Some x \<longrightarrow> x \<in> D"
  shows "(\<forall>dn i r. EnvRequestCancelWorkflow dn i r \<in> set (requests (happen vfa enc info evs st)) \<longrightarrow>
       (i, r) \<in> D \<union> delivered evs) \<and>
    (\<forall>cell x. executions (happen vfa enc info evs st) cell = Some x \<longrightarrow> x \<in> D \<union> delivered evs)"
  using assms
proof (induction evs arbitrary: st D)
  case Nil
  then show ?case by (simp add: happen_def)
next
  case (Cons ev evs)
  from deliver_keeps [OF Cons.prems, of vfa enc info ev]
  have k: "\<forall>dn i r. EnvRequestCancelWorkflow dn i r \<in> set (requests (deliver vfa enc info ev st)) \<longrightarrow>
       (i, r) \<in> D \<union> delivered [ev]"
    "\<forall>cell x. executions (deliver vfa enc info ev st) cell = Some x \<longrightarrow> x \<in> D \<union> delivered [ev]"
    by simp_all
  have u: "D \<union> delivered [ev] \<union> delivered evs = D \<union> delivered (ev # evs)"
    using delivered_Cons [of ev evs] by auto
  have h: "happen vfa enc info (ev # evs) st = happen vfa enc info evs (deliver vfa enc info ev st)"
    by (simp add: happen_def)
  from Cons.IH [OF k] show ?case unfolding h u .
qed

text \<open>A coroutine of a child workflow that runs while the execution is not known.\<close>

lemma afterDone_unknown:
  assumes "executions st cell = None"
  shows "afterDone (WatchChild d cell) st = (Returned (), st)"
  using assms by (simp add: afterDone_def)

lemma runWatcher_unknown:
  assumes "k < length (watchers u)" "watchers u ! k = (WatchChild d cell, p)"
    "executions u cell = None"
  shows "requests (runWatcher k u) = requests u"
proof (cases p)
  case Ended
  with assms show ?thesis by (simp add: runWatcher_def)
next
  case NotStarted
  show ?thesis
  proof (cases d)
    case None
    with assms NotStarted show ?thesis by (simp add: runWatcher_def doneOf_def setParking_def)
  next
    case (Some ch)
    obtain b w where r: "Receive decodesAll ch NilDest (store u) = (b, w)"
      by (cases "Receive decodesAll ch NilDest (store u)")
    from assms(3) have "afterDone (WatchChild d cell) (u\<lparr>store := w\<rparr>) = (Returned (), u\<lparr>store := w\<rparr>)"
      by (simp add: afterDone_def)
    with assms NotStarted Some r show ?thesis
      by (cases b) (simp_all add: runWatcher_def doneOf_def received_def setParking_def)
  qed
next
  case (ParkedAt fr)
  obtain b w where r: "Receive_loop decodesAll fr NilDest (store u) = (b, w)"
    by (cases "Receive_loop decodesAll fr NilDest (store u)")
  from assms(3) have "afterDone (WatchChild d cell) (u\<lparr>store := w\<rparr>) = (Returned (), u\<lparr>store := w\<rparr>)"
    by (simp add: afterDone_def)
  with assms ParkedAt r show ?thesis
    by (cases b) (simp_all add: runWatcher_def received_def setParking_def)
qed

lemma runWatcher_Ended:
  assumes "k < length (watchers u)" "snd (watchers u ! k) = Ended"
  shows "runWatcher k u = u"
  using assms by (cases "watchers u ! k") (simp add: runWatcher_def)

lemma runWatcher_closed:
  assumes "k < length (watchers u)" "watchers u ! k = (wt, NotStarted)" "doneOf wt = Some ch"
    "channelImpl.closed (chans (store u) ch)" "held (chans (store u) ch) = []"
  shows "snd (watchers (runWatcher k u) ! k) = Ended"
proof -
  from assms(5) have d: "buffer (chans (store u) ch) = []" "recValue (chans (store u) ch) = None"
    by (simp_all add: held_def split: option.splits)
  from Receive_drained [OF assms(4) d, of decodesAll] assms(1-3) show ?thesis
    by (simp add: runWatcher_def received_def setParking_def afterDone_parts)
qed

lemma runWatcher_woken:
  assumes "k < length (watchers u)" "watchers u ! k = (wt, ParkedAt fr)"
    "hasResult (receiveFrames (store u) fr)"
  shows "snd (watchers (runWatcher k u) ! k) = Ended"
  using assms
  by (simp add: runWatcher_def received_def setParking_def afterDone_parts Receive_loop_def
      assignValue_def decodeAndAssignValue_def Let_def)

lemma Err_store: "Err d (u\<lparr>store := w\<rparr>) = Err d u"
  by (simp add: Err_def split: option.split)

lemma afterDone_known:
  assumes "Err d st = Some ErrCanceled" "executions st cell = Some x"
    "envOptions st = Some options" "domainName options = Some dn"
  shows "afterDone (WatchChild d cell) st =
    (Returned (), st\<lparr>requests := requests st @ [EnvRequestCancelWorkflow dn (fst x) (snd x)]\<rparr>)"
  using assms by (simp add: afterDone_def)

lemma runWatcher_known_closed:
  assumes "k < length (watchers u)" "watchers u ! k = (WatchChild (Some ch) cell, NotStarted)"
    "channelImpl.closed (chans (store u) ch)" "held (chans (store u) ch) = []"
    "Err (Some ch) u = Some ErrCanceled" "executions u cell = Some x"
    "envOptions u = Some options" "domainName options = Some dn"
  shows "requests (runWatcher k u) = requests u @ [EnvRequestCancelWorkflow dn (fst x) (snd x)]"
proof -
  from assms(4) have d: "buffer (chans (store u) ch) = []" "recValue (chans (store u) ch) = None"
    by (simp_all add: held_def split: option.splits)
  have "afterDone (WatchChild (Some ch) cell) (u\<lparr>store := w\<rparr>) =
    (Returned (), (u\<lparr>store := w\<rparr>)\<lparr>requests := requests (u\<lparr>store := w\<rparr>) @
       [EnvRequestCancelWorkflow dn (fst x) (snd x)]\<rparr>)" for w
    by (rule afterDone_known) (use assms(5-8) in \<open>simp_all add: Err_store\<close>)
  with Receive_drained [OF assms(3) d, of decodesAll] assms(1,2) show ?thesis
    by (simp add: runWatcher_def received_def setParking_def doneOf_def)
qed

lemma runWatcher_known_woken:
  assumes "k < length (watchers u)" "watchers u ! k = (WatchChild d cell, ParkedAt fr)"
    "hasResult (receiveFrames (store u) fr)"
    "Err d u = Some ErrCanceled" "executions u cell = Some x"
    "envOptions u = Some options" "domainName options = Some dn"
  shows "requests (runWatcher k u) = requests u @ [EnvRequestCancelWorkflow dn (fst x) (snd x)]"
proof -
  obtain b w where r: "Receive_loop decodesAll fr NilDest (store u) = (Returned b, w)"
    using assms(3)
    by (simp add: Receive_loop_def assignValue_def decodeAndAssignValue_def Let_def)
  have "afterDone (WatchChild d cell) (u\<lparr>store := w\<rparr>) =
    (Returned (), (u\<lparr>store := w\<rparr>)\<lparr>requests := requests (u\<lparr>store := w\<rparr>) @
       [EnvRequestCancelWorkflow dn (fst x) (snd x)]\<rparr>)"
    by (rule afterDone_known) (use assms(4-7) in \<open>simp_all add: Err_store\<close>)
  with r assms(1,2) show ?thesis
    by (simp add: runWatcher_def received_def setParking_def)
qed

lemma runWatcher_not_cancelled:
  assumes "k < length (watchers u)" "watchers u ! k = (WatchChild d cell, p)"
    "Err d u \<noteq> Some ErrCanceled"
  shows "requests (runWatcher k u) = requests u"
proof -
  have a: "afterDone (WatchChild d cell) (u\<lparr>store := w\<rparr>) = (Returned (), u\<lparr>store := w\<rparr>)" for w
    using assms(3) by (simp add: afterDone_def Err_store)
  show ?thesis
  proof (cases p)
    case Ended
    with assms show ?thesis by (simp add: runWatcher_def)
  next
    case NotStarted
    show ?thesis
    proof (cases d)
      case None
      with assms NotStarted show ?thesis by (simp add: runWatcher_def doneOf_def setParking_def)
    next
      case (Some ch)
      obtain b w where r: "Receive decodesAll ch NilDest (store u) = (b, w)"
        by (cases "Receive decodesAll ch NilDest (store u)")
      with assms NotStarted Some a [of w] show ?thesis
        by (cases b) (simp_all add: runWatcher_def doneOf_def received_def setParking_def)
    qed
  next
    case (ParkedAt fr)
    obtain b w where r: "Receive_loop decodesAll fr NilDest (store u) = (b, w)"
      by (cases "Receive_loop decodesAll fr NilDest (store u)")
    with assms ParkedAt a [of w] show ?thesis
      by (cases b) (simp_all add: runWatcher_def received_def setParking_def)
  qed
qed

text \<open>
  Claim C8, as the code has it. From a state without requests to cancel a child and
  with no execution known, after any events (calls of \<^verbatim>\<open>ExecuteChildWorkflow\<close>, callbacks
  of the environment, cancellations, runs of the coroutines) and at every moment of
  them: a request \<^verbatim>\<open>RequestCancelWorkflow\<close> that has been made names an execution that a
  started callback has delivered, without error, before. A coroutine of a child
  workflow that runs while its \<^verbatim>\<open>childWorkflowExecution\<close> is nil makes no request; it
  ends in that run when the \<^verbatim>\<open>Done\<close> channel is closed, or was closed while it was
  parked; and a coroutine that has ended does nothing any more, so the request is not
  made later either. A coroutine that runs, for the first time with the \<^verbatim>\<open>Done\<close> channel
  closed or woken from its \<^verbatim>\<open>Receive\<close>, while the execution is known, the context
  cancelled and the domain of the workflow set, makes the request, with that domain
  and that execution, and makes it last; a coroutine that runs while the error of the
  context is not \<^verbatim>\<open>ErrCanceled\<close> makes none. What decides is whether the execution is
  known when the coroutine runs, not when the context is cancelled.
\<close>

theorem cancel_after_started:
  assumes "\<forall>dn i r. EnvRequestCancelWorkflow dn i r \<notin> set (requests st)"
    and "\<forall>cell. executions st cell = None"
  shows "(\<forall>n dn i r.
        EnvRequestCancelWorkflow dn i r \<in> set (requests (happen vfa enc info (take n evs) st)) \<longrightarrow>
        (i, r) \<in> delivered (take n evs)) \<and>
    (\<forall>(u :: session) k d cell p.
        k < length (watchers u) \<and> watchers u ! k = (WatchChild d cell, p) \<and>
        executions u cell = None \<longrightarrow>
        requests (runWatcher k u) = requests u) \<and>
    (\<forall>(u :: session) k wt ch.
        k < length (watchers u) \<and> watchers u ! k = (wt, NotStarted) \<and> doneOf wt = Some ch \<and>
        channelImpl.closed (chans (store u) ch) \<and> held (chans (store u) ch) = [] \<longrightarrow>
        snd (watchers (runWatcher k u) ! k) = Ended) \<and>
    (\<forall>(u :: session) k wt fr.
        k < length (watchers u) \<and> watchers u ! k = (wt, ParkedAt fr) \<and>
        hasResult (receiveFrames (store u) fr) \<longrightarrow>
        snd (watchers (runWatcher k u) ! k) = Ended) \<and>
    (\<forall>(u :: session) k.
        k < length (watchers u) \<and> snd (watchers u ! k) = Ended \<longrightarrow> runWatcher k u = u) \<and>
    (\<forall>(u :: session) k ch cell x options dn.
        k < length (watchers u) \<and> watchers u ! k = (WatchChild (Some ch) cell, NotStarted) \<and>
        channelImpl.closed (chans (store u) ch) \<and> held (chans (store u) ch) = [] \<and>
        Err (Some ch) u = Some ErrCanceled \<and> executions u cell = Some x \<and>
        envOptions u = Some options \<and> domainName options = Some dn \<longrightarrow>
        requests (runWatcher k u) = requests u @ [EnvRequestCancelWorkflow dn (fst x) (snd x)]) \<and>
    (\<forall>(u :: session) k d cell fr x options dn.
        k < length (watchers u) \<and> watchers u ! k = (WatchChild d cell, ParkedAt fr) \<and>
        hasResult (receiveFrames (store u) fr) \<and>
        Err d u = Some ErrCanceled \<and> executions u cell = Some x \<and>
        envOptions u = Some options \<and> domainName options = Some dn \<longrightarrow>
        requests (runWatcher k u) = requests u @ [EnvRequestCancelWorkflow dn (fst x) (snd x)]) \<and>
    (\<forall>(u :: session) k d cell p.
        k < length (watchers u) \<and> watchers u ! k = (WatchChild d cell, p) \<and>
        Err d u \<noteq> Some ErrCanceled \<longrightarrow>
        requests (runWatcher k u) = requests u)"
proof (intro conjI allI impI)
  fix n dn i r
  assume a: "EnvRequestCancelWorkflow dn i r \<in>
    set (requests (happen vfa enc info (take n evs) st))"
  from assms have "\<forall>dn i r. EnvRequestCancelWorkflow dn i r \<in> set (requests st) \<longrightarrow> (i, r) \<in> {}"
    "\<forall>cell x. executions st cell = Some x \<longrightarrow> x \<in> {}" by simp_all
  from happen_keeps [OF this, of vfa enc info "take n evs"] a
  show "(i, r) \<in> delivered (take n evs)" by simp
next
  fix u :: session and k d cell p
  assume "k < length (watchers u) \<and> watchers u ! k = (WatchChild d cell, p) \<and>
        executions u cell = None"
  then show "requests (runWatcher k u) = requests u" by (blast intro: runWatcher_unknown)
next
  fix u :: session and k wt ch
  assume "k < length (watchers u) \<and> watchers u ! k = (wt, NotStarted) \<and> doneOf wt = Some ch \<and>
        channelImpl.closed (chans (store u) ch) \<and> held (chans (store u) ch) = []"
  then show "snd (watchers (runWatcher k u) ! k) = Ended" by (blast intro: runWatcher_closed)
next
  fix u :: session and k wt fr
  assume "k < length (watchers u) \<and> watchers u ! k = (wt, ParkedAt fr) \<and>
        hasResult (receiveFrames (store u) fr)"
  then show "snd (watchers (runWatcher k u) ! k) = Ended" by (blast intro: runWatcher_woken)
next
  fix u :: session and k
  assume "k < length (watchers u) \<and> snd (watchers u ! k) = Ended"
  then show "runWatcher k u = u" by (blast intro: runWatcher_Ended)
next
  fix u :: session and k ch cell x options dn
  assume "k < length (watchers u) \<and> watchers u ! k = (WatchChild (Some ch) cell, NotStarted) \<and>
        channelImpl.closed (chans (store u) ch) \<and> held (chans (store u) ch) = [] \<and>
        Err (Some ch) u = Some ErrCanceled \<and> executions u cell = Some x \<and>
        envOptions u = Some options \<and> domainName options = Some dn"
  then show "requests (runWatcher k u) = requests u @ [EnvRequestCancelWorkflow dn (fst x) (snd x)]"
    by (intro runWatcher_known_closed [of k u ch cell x options dn]) simp_all
next
  fix u :: session and k d cell fr x options dn
  assume "k < length (watchers u) \<and> watchers u ! k = (WatchChild d cell, ParkedAt fr) \<and>
        hasResult (receiveFrames (store u) fr) \<and>
        Err d u = Some ErrCanceled \<and> executions u cell = Some x \<and>
        envOptions u = Some options \<and> domainName options = Some dn"
  then show "requests (runWatcher k u) = requests u @ [EnvRequestCancelWorkflow dn (fst x) (snd x)]"
    by (intro runWatcher_known_woken [of k u d cell fr x options dn]) simp_all
next
  fix u :: session and k d cell p
  assume "k < length (watchers u) \<and> watchers u ! k = (WatchChild d cell, p) \<and>
        Err d u \<noteq> Some ErrCanceled"
  then show "requests (runWatcher k u) = requests u"
    by (intro runWatcher_not_cancelled [of k u d cell p]) simp_all
qed

lemmas api_defs = happen_def deliver_def ExecuteChildWorkflow_def getValidatedWorkerFunction_def
  accepts_def encodes_def getValidatedWorkflowOptions_def validOptions_def theInfo_def
  newFuture_def NewFuture_def NewChannel_def newChannel_def startedCallback_def Set_def Close_def
  cancel_def cancellable_def runWatcher_def received_def afterDone_def Err_def doneOf_def
  setParking_def Receive_def Receive_loop_def receiveAsyncImpl_def setChan_def assignValue_def
  decodeAndAssignValue_def runReceiveCallback_def Let_def fresh_def emptyWorld_def

lemma startThenCancel_requests:
  "requests (happen accepts encodes theInfo startThenCancel fresh) =
     [EnvExecuteChildWorkflow (validOptions\<lparr>inputBytes := [], workflowType := Some ''child''\<rparr>) 0 1 0,
      EnvRequestCancelWorkflow ''domain'' ''id'' ''run'']"
  by (simp add: startThenCancel_def api_defs)

lemma cancelThenResume_requests:
  "requests (happen accepts encodes theInfo cancelThenResume fresh) =
     [EnvExecuteChildWorkflow (validOptions\<lparr>inputBytes := [], workflowType := Some ''child''\<rparr>) 0 1 0]"
  by (simp add: cancelThenResume_def api_defs)

lemma startThenCancel_delivered: "(''id'', ''run'') \<in> delivered startThenCancel"
  by (auto simp: delivered_def startThenCancel_def)

lemma startThenCancel_before:
  "watchers (happen accepts encodes theInfo (take 3 startThenCancel) fresh) =
     [(WatchChild (Some 0) 0, NotStarted)]"
  "channelImpl.closed (chans (store (happen accepts encodes theInfo (take 3 startThenCancel) fresh)) 0)"
  "held (chans (store (happen accepts encodes theInfo (take 3 startThenCancel) fresh)) 0) = []"
  "Err (Some 0) (happen accepts encodes theInfo (take 3 startThenCancel) fresh) = Some ErrCanceled"
  "executions (happen accepts encodes theInfo (take 3 startThenCancel) fresh) 0 = Some (''id'', ''run'')"
  "envOptions (happen accepts encodes theInfo (take 3 startThenCancel) fresh) =
     Some (validOptions\<lparr>inputBytes := [], workflowType := Some ''child''\<rparr>)"
  "domainName (validOptions\<lparr>inputBytes := [], workflowType := Some ''child''\<rparr>) = Some ''domain''"
  "requests (happen accepts encodes theInfo (take 3 startThenCancel) fresh) =
     [EnvExecuteChildWorkflow (validOptions\<lparr>inputBytes := [], workflowType := Some ''child''\<rparr>) 0 1 0]"
  by (simp_all add: startThenCancel_def api_defs held_def)

theorem cancel_after_started_witness:
  "requests fresh = [] \<and> executions fresh = (\<lambda>cell. None) \<and>
   EnvRequestCancelWorkflow ''domain'' ''id'' ''run'' \<in>
     set (requests (happen accepts encodes theInfo startThenCancel fresh)) \<and>
   (''id'', ''run'') \<in> delivered startThenCancel \<and>
   requests (happen accepts encodes theInfo cancelThenResume fresh) =
     [EnvExecuteChildWorkflow (validOptions\<lparr>inputBytes := [], workflowType := Some ''child''\<rparr>) 0 1 0] \<and>
   executions (happen accepts encodes theInfo (take 3 startThenCancel) fresh) 0 =
     Some (''id'', ''run'') \<and>
   Err (Some 0) (happen accepts encodes theInfo (take 3 startThenCancel) fresh) = Some ErrCanceled \<and>
   requests (runWatcher 0 (happen accepts encodes theInfo (take 3 startThenCancel) fresh)) =
     [EnvExecuteChildWorkflow (validOptions\<lparr>inputBytes := [], workflowType := Some ''child''\<rparr>) 0 1 0,
      EnvRequestCancelWorkflow ''domain'' ''id'' ''run'']"
proof -
  have h: "\<forall>dn i r. EnvRequestCancelWorkflow dn i r \<notin> set (requests fresh)"
    "\<forall>cell. executions fresh cell = None"
    by (simp_all add: fresh_def)
  have t4: "take 4 startThenCancel = startThenCancel" by (simp add: startThenCancel_def)
  have a: "EnvRequestCancelWorkflow ''domain'' ''id'' ''run'' \<in>
     set (requests (happen accepts encodes theInfo (take 4 startThenCancel) fresh))"
    unfolding t4 by (simp add: startThenCancel_requests)
  from cancel_after_started [OF h, of accepts encodes theInfo startThenCancel]
  have "\<forall>n dn i r. EnvRequestCancelWorkflow dn i r \<in>
        set (requests (happen accepts encodes theInfo (take n startThenCancel) fresh)) \<longrightarrow>
        (i, r) \<in> delivered (take n startThenCancel)" by (rule conjunct1)
  with a have "(''id'', ''run'') \<in> delivered (take 4 startThenCancel)" by blast
  then have b: "(''id'', ''run'') \<in> delivered startThenCancel" unfolding t4 .
  let ?u = "happen accepts encodes theInfo (take 3 startThenCancel) fresh"
  from cancel_after_started [OF h, of accepts encodes theInfo startThenCancel]
  have q: "\<forall>(u :: session) k ch cell x options dn.
        k < length (watchers u) \<and> watchers u ! k = (WatchChild (Some ch) cell, NotStarted) \<and>
        channelImpl.closed (chans (store u) ch) \<and> held (chans (store u) ch) = [] \<and>
        Err (Some ch) u = Some ErrCanceled \<and> executions u cell = Some x \<and>
        envOptions u = Some options \<and> domainName options = Some dn \<longrightarrow>
        requests (runWatcher k u) = requests u @ [EnvRequestCancelWorkflow dn (fst x) (snd x)]"
    by (elim conjE)
  have "requests (runWatcher 0 ?u) =
      requests ?u @ [EnvRequestCancelWorkflow ''domain'' (fst (''id'', ''run'')) (snd (''id'', ''run''))]"
    by (rule q [rule_format, of 0 ?u 0 0 "(''id'', ''run'')"
          "validOptions\<lparr>inputBytes := [], workflowType := Some ''child''\<rparr>" "''domain''"])
      (simp add: startThenCancel_before)
  then have c: "requests (runWatcher 0 ?u) =
     [EnvExecuteChildWorkflow (validOptions\<lparr>inputBytes := [], workflowType := Some ''child''\<rparr>) 0 1 0,
      EnvRequestCancelWorkflow ''domain'' ''id'' ''run'']"
    by (simp add: startThenCancel_before(8))
  from b c show ?thesis
    using cancelThenResume_requests startThenCancel_requests startThenCancel_before(4,5)
    by (simp add: fresh_def)
qed

text \<open>
  Claim C8 as it is stated fails when the start is reported between the cancellation
  and the next run of the coroutine: the context is cancelled while the execution is
  not known, and the request is made all the same.
\<close>

theorem cancel_after_started_counterexample:
  "Err (ctxDone cancellable)
     (happen accepts encodes theInfo
        [CallChild cancellable (FuncValue ''child'') [], Resume 0, Cancel cancellable] fresh) =
     Some ErrCanceled \<and>
   executions
     (happen accepts encodes theInfo
        [CallChild cancellable (FuncValue ''child'') [], Resume 0, Cancel cancellable] fresh) 0 =
     None \<and>
   cancelThenStart =
     [CallChild cancellable (FuncValue ''child'') [], Resume 0, Cancel cancellable] @
     [Started 0 (''id'', ''run'') None, Resume 0] \<and>
   requests (happen accepts encodes theInfo cancelThenStart fresh) =
     [EnvExecuteChildWorkflow (validOptions\<lparr>inputBytes := [], workflowType := Some ''child''\<rparr>) 0 1 0,
      EnvRequestCancelWorkflow ''domain'' ''id'' ''run'']"
  by (simp add: cancelThenStart_def api_defs)

section \<open>The test environment: the timer that fires next\<close>

lemma notLater_refl: "notLater a a"
  by (simp add: notLater_def)

lemma notLater_trans: "notLater a b \<Longrightarrow> notLater b c \<Longrightarrow> notLater a c"
  by (auto simp: notLater_def)

lemma replaces_notLater: "replaces a b \<Longrightarrow> notLater a b"
  by (auto simp: replaces_def notLater_def)

lemma not_replaces_notLater: "\<not> replaces a b \<Longrightarrow> notLater b a"
  by (auto simp: replaces_def notLater_def)

lemma visit_None: "visit ts i None = Some i"
  by (simp add: visit_def)

lemma visit_Some: "visit ts i (Some n) = (if replaces (ts ! i) (ts ! n) then Some i else Some n)"
  by (simp add: visit_def)

lemma fold_visit:
  "k \<le> length ts \<Longrightarrow>
   (case fold (visit ts) [0..<k] None of
      None \<Rightarrow> k = 0
    | Some n \<Rightarrow> n < k \<and> (\<forall>i<k. notLater (ts ! n) (ts ! i)))"
proof (induction k)
  case 0
  then show ?case by simp
next
  case (Suc k)
  then have le: "k \<le> length ts" by simp
  show ?case
  proof (cases "fold (visit ts) [0..<k] None")
    case None
    with Suc.IH [OF le] have "k = 0" by simp
    with None show ?thesis by (simp add: visit_None notLater_refl)
  next
    case (Some n)
    with Suc.IH [OF le] have n: "n < k" and mn: "\<forall>i<k. notLater (ts ! n) (ts ! i)"
      by simp_all
    show ?thesis
    proof (cases "replaces (ts ! k) (ts ! n)")
      case True
      have "\<forall>i<Suc k. notLater (ts ! k) (ts ! i)"
      proof (intro allI impI)
        fix i assume "i < Suc k"
        then consider "i = k" | "i < k" by linarith
        then show "notLater (ts ! k) (ts ! i)"
        proof cases
          case 1 then show ?thesis by (simp add: notLater_refl)
        next
          case 2
          with mn have "notLater (ts ! n) (ts ! i)" by simp
          with replaces_notLater [OF True] show ?thesis by (rule notLater_trans)
        qed
      qed
      with Some True show ?thesis by (simp add: visit_Some)
    next
      case False
      have "\<forall>i<Suc k. notLater (ts ! n) (ts ! i)"
      proof (intro allI impI)
        fix i assume "i < Suc k"
        then consider "i = k" | "i < k" by linarith
        then show "notLater (ts ! n) (ts ! i)"
        proof cases
          case 1 with not_replaces_notLater [OF False] show ?thesis by simp
        next
          case 2 with mn show ?thesis by simp
        qed
      qed
      with Some False n show ?thesis by (simp add: visit_Some)
    qed
  qed
qed

lemma findNextTimer_least:
  assumes "ts \<noteq> []"
  shows "\<exists>n. findNextTimer ts = Some n \<and> n < length ts \<and> (\<forall>u \<in> set ts. notLater (ts ! n) u)"
proof -
  from fold_visit [of "length ts" ts]
  have c: "case findNextTimer ts of None \<Rightarrow> length ts = 0
      | Some n \<Rightarrow> n < length ts \<and> (\<forall>i<length ts. notLater (ts ! n) (ts ! i))"
    by (simp add: findNextTimer_def)
  show ?thesis
  proof (cases "findNextTimer ts")
    case None
    with c assms show ?thesis by simp
  next
    case (Some n)
    with c have "n < length ts" and "\<forall>i<length ts. notLater (ts ! n) (ts ! i)" by simp_all
    then have "\<forall>u \<in> set ts. notLater (ts ! n) u"
      by (auto simp: in_set_conv_nth)
    with Some \<open>n < length ts\<close> show ?thesis by simp
  qed
qed

lemma notLater_antisym:
  "notLater a b \<Longrightarrow> notLater b a \<Longrightarrow> mockTimeToFire a = mockTimeToFire b \<and> timerID a = timerID b"
  by (auto simp: notLater_def)

lemma stopWallTimer_fields:
  "timers (stopWallTimer r env) = timers env"
  "mockClock (stopWallTimer r env) = mockClock env"
  "mockAdds (stopWallTimer r env) = mockAdds env"
  "length (wallTimers (stopWallTimer r env)) = length (wallTimers env)"
  by (simp_all add: stopWallTimer_def)

text \<open>
  Claim C9. When the callback queue is empty and timers exist, \<^verbatim>\<open>autoFireNextTimer\<close>
  chooses, whatever the order in which the map is visited, a timer \<open>n\<close> that is not
  later than any other: earliest mock fire time, ties broken by the smaller
  \<^verbatim>\<open>timerID\<close>; every timer with that property has the same \<^verbatim>\<open>timerID\<close>. When the
  running count is zero the turn of the main loop fires it by moving the mock clock to
  its fire time and arranges no timer of the real clock; otherwise the mock clock is
  left alone, the call returns false, and the chosen timer has a timer of the real
  clock: the one it had (the environment is unchanged) or a new one, set to the time
  left on the mock clock.
\<close>

theorem autoFireNextTimer_earliest:
  assumes queue: "callbackChannel env = []" and some: "timers env \<noteq> []"
  shows "\<exists>n env'. findNextTimer (timers env) = Some n \<and> n < length (timers env) \<and>
      (\<forall>u \<in> set (timers env). notLater (timers env ! n) u) \<and>
      (\<forall>u \<in> set (timers env). (\<forall>v \<in> set (timers env). notLater u v) \<longrightarrow>
          timerID u = timerID (timers env ! n)) \<and>
      mainLoopTurn env =
        (if runningCount env = 0 then TimerFired
         else if isTestCompleted env then LoopReturns else WaitForCallbackOrTimeout, env') \<and>
      autoFireNextTimer env = (runningCount env = 0, env') \<and>
      (if runningCount env = 0 then
         mockClock env' = mockTimeToFire (timers env ! n) \<and>
         mockAdds env' = mockAdds env @ [mockTimeToFire (timers env ! n) - mockClock env] \<and>
         length (wallTimers env') = length (wallTimers env) \<and>
         wallTimer (timers env' ! n) = None
       else
         mockClock env' = mockClock env \<and> mockAdds env' = mockAdds env \<and>
         wallTimer (timers env' ! n) \<noteq> None \<and>
         (env' = env \<or>
          wallTimer (timers env' ! n) = Some (length (wallTimers env)) \<and>
          wallTimers env' ! length (wallTimers env) =
            \<lparr>fireAfter = mockTimeToFire (timers env ! n) - mockClock env,
             target = timerID (timers env ! n), stopped = False\<rparr>))"
proof -
  from findNextTimer_least [OF some] obtain n where
    n: "findNextTimer (timers env) = Some n" "n < length (timers env)"
    and least: "\<forall>u \<in> set (timers env). notLater (timers env ! n) u"
    by blast
  let ?t = "timers env ! n"
  let ?d = "mockTimeToFire ?t - mockClock env"
  let ?turn = "\<lambda>env'. mainLoopTurn env =
        (if runningCount env = 0 then TimerFired
         else if isTestCompleted env then LoopReturns else WaitForCallbackOrTimeout, env')"
  let ?post = "\<lambda>env'. if runningCount env = 0 then
         mockClock env' = mockTimeToFire ?t \<and>
         mockAdds env' = mockAdds env @ [?d] \<and>
         length (wallTimers env') = length (wallTimers env) \<and>
         wallTimer (timers env' ! n) = None
       else
         mockClock env' = mockClock env \<and> mockAdds env' = mockAdds env \<and>
         wallTimer (timers env' ! n) \<noteq> None \<and>
         (env' = env \<or>
          wallTimer (timers env' ! n) = Some (length (wallTimers env)) \<and>
          wallTimers env' ! length (wallTimers env) =
            \<lparr>fireAfter = ?d, target = timerID ?t, stopped = False\<rparr>)"
  have uniq: "\<forall>u \<in> set (timers env). (\<forall>v \<in> set (timers env). notLater u v) \<longrightarrow>
      timerID u = timerID ?t"
  proof (intro ballI impI)
    fix u assume u: "u \<in> set (timers env)" and m: "\<forall>v \<in> set (timers env). notLater u v"
    from n(2) have "?t \<in> set (timers env)" by simp
    with m have "notLater u ?t" by blast
    moreover from least u have "notLater ?t u" by blast
    ultimately show "timerID u = timerID ?t"
      using notLater_antisym by blast
  qed
  have "\<exists>env'. ?turn env' \<and> autoFireNextTimer env = (runningCount env = 0, env') \<and> ?post env'"
  proof (cases "runningCount env = 0")
    case True
    define env' where "env' = fireTimer ?t
        (case wallTimer ?t of None \<Rightarrow> env
         | Some r \<Rightarrow> (stopWallTimer r env)
             \<lparr>timers := (timers env)[n := ?t\<lparr>wallTimer := None\<rparr>]\<rparr>)"
    have r: "autoFireNextTimer env = (runningCount env = 0, env')"
      using n True by (simp add: autoFireNextTimer_def Let_def env'_def)
    have turn: "?turn env'"
      using queue r True by (simp add: mainLoopTurn_def)
    have post: "?post env'"
      using n(2) True unfolding env'_def
      by (cases "wallTimer ?t") (simp_all add: fireTimer_def Let_def stopWallTimer_fields)
    from turn r post show ?thesis by blast
  next
    case False
    show ?thesis
    proof (cases "wallTimer ?t \<noteq> None \<and> wallTimeToFire ?t < wallClock env + ?d")
      case True
      have r: "autoFireNextTimer env = (runningCount env = 0, env)"
        using n False True by (simp add: autoFireNextTimer_def Let_def)
      have turn: "?turn env"
        using queue r False by (simp add: mainLoopTurn_def)
      have post: "?post env"
        using False True by simp
      from turn r post show ?thesis by blast
    next
      case keep: False
      define env1 where "env1 = (case wallTimer ?t of None \<Rightarrow> env | Some r \<Rightarrow> stopWallTimer r env)"
      define env' where "env' = env1\<lparr>wallTimers := wallTimers env1 @
                 [\<lparr>fireAfter = ?d, target = timerID ?t, stopped = False\<rparr>],
               timers := (timers env)[n := ?t
                 \<lparr>wallTimeToFire := wallClock env + ?d,
                  wallTimer := Some (length (wallTimers env1))\<rparr>]\<rparr>"
      have env1: "timers env1 = timers env" "mockClock env1 = mockClock env"
        "mockAdds env1 = mockAdds env" "length (wallTimers env1) = length (wallTimers env)"
        "isTestCompleted env1 = isTestCompleted env"
        by (simp_all add: env1_def stopWallTimer_def split: option.split)
      have r: "autoFireNextTimer env = (runningCount env = 0, env')"
        using n False keep by (auto simp: autoFireNextTimer_def Let_def env1_def env'_def)
      have turn: "?turn env'"
        using queue r False by (simp add: mainLoopTurn_def env'_def env1)
      have post: "?post env'"
        using n(2) False by (simp add: env'_def env1 nth_append)
      from turn r post show ?thesis by blast
    qed
  qed
  then obtain env' where "?turn env'" "autoFireNextTimer env = (runningCount env = 0, env')"
    "?post env'" by blast
  with n least uniq show ?thesis
    by (intro exI [of _ n] exI [of _ env'] conjI) assumption+
qed

lemma findNextTimer_twoTimers: "findNextTimer (timers twoTimers) = Some 2"
  by (simp add: findNextTimer_def twoTimers_def visit_None visit_Some replaces_def upt_rec)

theorem autoFireNextTimer_earliest_witness:
  "callbackChannel twoTimers = [] \<and> timers twoTimers \<noteq> [] \<and>
   findNextTimer (timers twoTimers) = Some 2 \<and>
   fst (mainLoopTurn twoTimers) = TimerFired \<and>
   mockClock (snd (mainLoopTurn twoTimers)) = 10"
  using autoFireNextTimer_earliest [of twoTimers] findNextTimer_twoTimers
  by (auto simp: twoTimers_def)

end
